theory Spec2Isabelle
  imports Complex_Main "HOL-Library.Multiset" "HOL-Library.Sublist"
begin

section \<open>Numeric values\<close>

text \<open>
  The script computes with numpy's float64. A finite value is kept as the real number it
  denotes, next to the two infinities and NaN. What an operation returns is the exact
  result only up to rounding, overflow and underflow, and for \<^verbatim>\<open>**\<close> and \<^verbatim>\<open>np.exp\<close> up to
  the accuracy of the library as well. The four operations of the model evaluator are
  therefore not computed here: they are some operations that keep the rules of float64
  arithmetic stated below, and nothing else is known of them.
\<close>

datatype np_float = Fin real | PInf | NInf | NaN

text \<open>\<^verbatim>\<open>a - b\<close>, \<^verbatim>\<open>b ** t\<close> with a Python float \<open>t\<close>, \<^verbatim>\<open>a * b\<close> and \<^verbatim>\<open>np.exp(v)\<close> on float64
  values.\<close>

record float_ops =
  np_subtract :: "np_float \<Rightarrow> np_float \<Rightarrow> np_float"
  np_power :: "np_float \<Rightarrow> real \<Rightarrow> np_float"
  np_multiply :: "np_float \<Rightarrow> np_float \<Rightarrow> np_float"
  np_exp :: "np_float \<Rightarrow> np_float"


fun np_isfinite :: "np_float \<Rightarrow> bool" where
  "np_isfinite (Fin a) = True"
| "np_isfinite _ = False"

text \<open>\<^verbatim>\<open>b / a\<close> on finite float64 operands: numpy does not raise on a zero divisor, it
  returns an infinity or NaN. The quotient of a divisor that is not zero is written as
  the exact quotient.\<close>

definition np_div :: "real \<Rightarrow> real \<Rightarrow> np_float" where
  "np_div b a =
     (if a \<noteq> 0 then Fin (b / a)
      else if b = 0 then NaN else if 0 < b then PInf else NInf)"

text \<open>\<^verbatim>\<open>np.sqrt\<close>.\<close>

fun np_sqrt :: "np_float \<Rightarrow> np_float" where
  "np_sqrt (Fin a) = (if a < 0 then NaN else Fin (sqrt a))"
| "np_sqrt PInf = PInf"
| "np_sqrt NInf = NaN"
| "np_sqrt NaN = NaN"

section \<open>Rules of float64 arithmetic\<close>

text \<open>
  \<open>rounded v r\<close>: \<open>r\<close> is a float64 that an operation whose exact result is \<open>v\<close> may
  return. The sign is kept; a small value may become zero and a large one an infinity;
  an exact zero stays zero.
\<close>

definition rounded :: "real \<Rightarrow> np_float \<Rightarrow> bool" where
  "rounded v r =
     (case r of
        Fin u \<Rightarrow> (0 < v \<longrightarrow> 0 \<le> u) \<and> (v < 0 \<longrightarrow> u \<le> 0) \<and> (v = 0 \<longrightarrow> u = 0)
      | PInf \<Rightarrow> 0 < v
      | NInf \<Rightarrow> v < 0
      | NaN \<Rightarrow> False)"

text \<open>The product when an operand is not finite, as IEEE 754 fixes it, and the exact
  product of two finite operands.\<close>

fun exact_mul :: "np_float \<Rightarrow> np_float \<Rightarrow> np_float" where
  "exact_mul (Fin a) (Fin b) = Fin (a * b)"
| "exact_mul NaN _ = NaN"
| "exact_mul _ NaN = NaN"
| "exact_mul (Fin a) PInf = (if a = 0 then NaN else if 0 < a then PInf else NInf)"
| "exact_mul (Fin a) NInf = (if a = 0 then NaN else if 0 < a then NInf else PInf)"
| "exact_mul PInf (Fin b) = (if b = 0 then NaN else if 0 < b then PInf else NInf)"
| "exact_mul NInf (Fin b) = (if b = 0 then NaN else if 0 < b then NInf else PInf)"
| "exact_mul PInf PInf = PInf"
| "exact_mul PInf NInf = NInf"
| "exact_mul NInf PInf = NInf"
| "exact_mul NInf NInf = PInf"

text \<open>
  What is assumed of the four operations, each a fact of float64 arithmetic:
  \<^item> a difference with a subtrahend of magnitude at most 1 is finite, has the sign of the
    exact difference, and is zero only for equal operands;
  \<^item> a negative base with a non-integer exponent gives NaN, a zero base with a positive
    exponent gives zero, and a positive base gives a rounded power;
  \<^item> a product of finite operands is a rounded product, and a product with an operand
    that is not finite is the one IEEE 754 fixes;
  \<^item> the exponential of a finite operand is a rounded exponential, finite for an operand
    that is not positive and not zero for an operand from \<open>-700\<close> on; that of \<open>+inf\<close> is
    \<open>+inf\<close>, that of \<open>-inf\<close> is zero, that of NaN is NaN.
\<close>

definition float_rules :: "float_ops \<Rightarrow> bool" where
  "float_rules N =
     ((\<forall>a b. \<bar>b\<bar> \<le> 1 \<longrightarrow>
         (\<exists>u. np_subtract N (Fin a) (Fin b) = Fin u \<and> rounded (a - b) (Fin u)
              \<and> (a \<noteq> b \<longrightarrow> u \<noteq> 0)))
      \<and> (\<forall>b t. b < 0 \<and> of_int \<lfloor>t\<rfloor> \<noteq> t \<longrightarrow> np_power N (Fin b) t = NaN)
      \<and> (\<forall>t. 0 < t \<longrightarrow> np_power N (Fin 0) t = Fin 0)
      \<and> (\<forall>b t. 0 < b \<longrightarrow> rounded (b powr t) (np_power N (Fin b) t))
      \<and> (\<forall>a b. rounded (a * b) (np_multiply N (Fin a) (Fin b)))
      \<and> (\<forall>a b. \<not> (np_isfinite a \<and> np_isfinite b) \<longrightarrow> np_multiply N a b = exact_mul a b)
      \<and> (\<forall>v. rounded (exp v) (np_exp N (Fin v)))
      \<and> (\<forall>v. v \<le> 0 \<longrightarrow> np_isfinite (np_exp N (Fin v)))
      \<and> (\<forall>v. - 700 \<le> v \<longrightarrow> np_exp N (Fin v) \<noteq> Fin 0)
      \<and> np_exp N PInf = PInf \<and> np_exp N NInf = Fin 0 \<and> np_exp N NaN = NaN)"





text \<open>The operations of numpy: some operations that keep the rules.\<close>

definition numpy_ops :: float_ops where
  "numpy_ops = (SOME N. float_rules N)"


section \<open>The percolation model\<close>

text \<open>
  \<^verbatim>\<open>def percolation_model_fixed_t(x, A, B, t=4.5)\<close> at a float64 \<open>x\<close>, which is what each
  element of the array argument is in every call of the script; every call leaves \<open>t\<close>
  at its default. The expression is read as Python reads it,
  \<^verbatim>\<open>(A * ((x - x_c) ** t)) * np.exp((-B) * x)\<close>, first over any four operations and then
  over those of numpy.
\<close>

definition x_c :: real where
  "x_c = 5 / 100"

definition t_default :: real where
  "t_default = 45 / 10"

definition percolation_model_on ::
  "float_ops \<Rightarrow> real \<Rightarrow> real \<Rightarrow> real \<Rightarrow> real \<Rightarrow> np_float" where
  "percolation_model_on N x A B t =
     np_multiply N
       (np_multiply N (Fin A) (np_power N (np_subtract N (Fin x) (Fin x_c)) t))
       (np_exp N (np_multiply N (Fin (- B)) (Fin x)))"

definition percolation_model_fixed_t :: "real \<Rightarrow> real \<Rightarrow> real \<Rightarrow> real \<Rightarrow> np_float" where
  "percolation_model_fixed_t x A B t = percolation_model_on numpy_ops x A B t"

text \<open>The same function on an array argument: numpy applies it to each element.\<close>

definition percolation_model_fixed_t_arr ::
  "real list \<Rightarrow> real \<Rightarrow> real \<Rightarrow> real \<Rightarrow> np_float list" where
  "percolation_model_fixed_t_arr xs A B t = map (\<lambda>xi. percolation_model_fixed_t xi A B t) xs"


section \<open>Text formatting\<close>

text \<open>
  Text is modelled as the bytes of its UTF-8 encoding. Python pads a field to a number
  of code points, which is the number of bytes that are not continuation bytes.
\<close>

definition codepoints :: "string \<Rightarrow> nat" where
  "codepoints s = length (filter (\<lambda>c. \<not> (128 \<le> (of_char c :: nat) \<and> (of_char c :: nat) < 192)) s)"

text \<open>The format specification \<^verbatim>\<open><n\<close>: left-justify in a field of width \<open>n\<close>.\<close>

definition ljust :: "nat \<Rightarrow> string \<Rightarrow> string" where
  "ljust n s = s @ replicate (n - codepoints s) (CHR '' '')"

definition zfill :: "nat \<Rightarrow> string \<Rightarrow> string" where
  "zfill n s = replicate (n - length s) (CHR ''0'') @ s"

definition digit_char :: "nat \<Rightarrow> char" where
  "digit_char d = char_of (48 + d)"

function str_nat :: "nat \<Rightarrow> string" where
  "str_nat n = (if n < 10 then [digit_char n] else str_nat (n div 10) @ [digit_char (n mod 10)])"
  by pat_completeness auto
termination
  by (relation "measure id") auto

declare str_nat.simps [simp del]

text \<open>\<^verbatim>\<open>str(i)\<close> for an integer, as an f-string field without a format specification
  renders it.\<close>

definition str_int :: "int \<Rightarrow> string" where
  "str_int i = (if i < 0 then ''-'' @ str_nat (nat (- i)) else str_nat (nat i))"

text \<open>
  Python converts a float to decimal by rounding its exact value to the requested number
  of digits, ties to the even digit.
\<close>

definition round_half_even :: "real \<Rightarrow> int" where
  "round_half_even v =
     (let f = \<lfloor>v\<rfloor>; r = v - of_int f
      in if r < 1 / 2 then f else if 1 / 2 < r then f + 1 else if even f then f else f + 1)"

text \<open>The digits of \<open>k / 10 ^ p\<close> with \<open>p\<close> decimals; no point is written when \<open>p = 0\<close>.\<close>

definition decimal_digits :: "nat \<Rightarrow> nat \<Rightarrow> string" where
  "decimal_digits p k =
     str_nat (k div 10 ^ p) @ (if p = 0 then [] else ''.'' @ zfill p (str_nat (k mod 10 ^ p)))"

text \<open>The format specification \<^verbatim>\<open>.pf\<close> on a finite value.\<close>

definition fmt_fixed :: "nat \<Rightarrow> real \<Rightarrow> string" where
  "fmt_fixed p v =
     (if v < 0 then ''-'' else []) @ decimal_digits p (nat (round_half_even (\<bar>v\<bar> * 10 ^ p)))"

text \<open>The decimal exponent \<open>\<lfloor>log\<^sub>1\<^sub>0 v\<rfloor>\<close> of a positive value, by repeated scaling.\<close>

function decade_up :: "real \<Rightarrow> int" where
  "decade_up v = (if 10 \<le> v then decade_up (v / 10) + 1 else 0)"
  by pat_completeness auto
termination
  by (relation "measure (\<lambda>v. nat \<lfloor>v\<rfloor>)") (auto, linarith)

function decade_down :: "real \<Rightarrow> int" where
  "decade_down v = (if 0 < v \<and> v < 1 then decade_down (v * 10) - 1 else 0)"
  by pat_completeness auto
termination
proof (relation "measure (\<lambda>v. nat \<lceil>1 / v\<rceil>)")
  show "wf (measure (\<lambda>v::real. nat \<lceil>1 / v\<rceil>))"
    by simp
next
  fix v :: real
  assume v: "0 < v \<and> v < 1"
  then have "1 < 1 / v"
    by simp
  then have big: "2 \<le> \<lceil>1 / v\<rceil>"
    by linarith
  have "1 / (v * 10) = (1 / v) / 10"
    by simp
  also have "\<dots> \<le> of_int \<lceil>1 / v\<rceil> / 10"
    by (simp add: divide_right_mono)
  finally have "\<lceil>1 / (v * 10)\<rceil> \<le> \<lceil>of_int \<lceil>1 / v\<rceil> / (10::real)\<rceil>"
    by (rule ceiling_mono)
  also have "\<dots> < \<lceil>1 / v\<rceil>"
    using big by linarith
  finally show "(v * 10, v) \<in> measure (\<lambda>v. nat \<lceil>1 / v\<rceil>)"
    using big v by simp
qed

declare decade_up.simps [simp del] decade_down.simps [simp del]

definition decade :: "real \<Rightarrow> int" where
  "decade v = (if 1 \<le> v then decade_up v else decade_down v)"

text \<open>
  The format specification \<^verbatim>\<open>.pe\<close> on a finite value: one digit, \<open>p\<close> decimals, and an
  exponent of at least two digits. A mantissa that rounds up to 10 moves to the next
  decade.
\<close>

definition sci_parts :: "nat \<Rightarrow> real \<Rightarrow> nat \<times> int" where
  "sci_parts p a =
     (if a = 0 then (0, 0)
      else let e = decade a; m = nat (round_half_even (a * 10 powi (int p - e)))
           in if m = 10 ^ (p + 1) then (10 ^ p, e + 1) else (m, e))"

definition fmt_sci :: "nat \<Rightarrow> real \<Rightarrow> string" where
  "fmt_sci p v =
     (case sci_parts p \<bar>v\<bar> of (m, e) \<Rightarrow>
        (if v < 0 then ''-'' else []) @ decimal_digits p m @ ''e''
        @ (if e < 0 then ''-'' else ''+'') @ zfill 2 (str_nat (nat \<bar>e\<bar>)))"

text \<open>Both specifications on any float64 value.\<close>

fun fmt_f :: "nat \<Rightarrow> np_float \<Rightarrow> string" where
  "fmt_f p (Fin v) = fmt_fixed p v"
| "fmt_f p PInf = ''inf''"
| "fmt_f p NInf = ''-inf''"
| "fmt_f p NaN = ''nan''"

fun fmt_e :: "nat \<Rightarrow> np_float \<Rightarrow> string" where
  "fmt_e p (Fin v) = fmt_sci p v"
| "fmt_e p PInf = ''inf''"
| "fmt_e p NInf = ''-inf''"
| "fmt_e p NaN = ''nan''"

section \<open>The dataset registry\<close>

text \<open>
  One entry of \<^verbatim>\<open>data_registry\<close>; the fields are the keys \<^verbatim>\<open>"valency"\<close>, \<^verbatim>\<open>"charge"\<close>,
  \<^verbatim>\<open>"x"\<close>, \<^verbatim>\<open>"sigma"\<close> and \<^verbatim>\<open>"fit"\<close> of the inner dictionary.
\<close>

record dataset =
  ds_valency :: string
  ds_charge :: int
  ds_x :: "real list"
  ds_sigma :: "real list"
  ds_fit :: bool

text \<open>A Python dictionary iterates in insertion order: the registry is the list of its
  items in that order, and its keys are distinct.\<close>

type_synonym registry = "(string \<times> dataset) list"

definition data_registry :: registry where
  "data_registry =
     [(''LiCl (Li+)'',
        \<lparr>ds_valency = ''Monovalent'', ds_charge = 1,
         ds_x = [0.10, 0.20, 0.30, 0.40, 0.50],
         ds_sigma = [4.98 / 10 ^ 7, 3.55 / 10 ^ 6, 3.61 / 10 ^ 5, 6.61 / 10 ^ 4, 2.08 / 10 ^ 3],
         ds_fit = True\<rparr>),
      (''NaN3 (Na+)'',
        \<lparr>ds_valency = ''Monovalent'', ds_charge = 1,
         ds_x = [0.05, 0.10, 0.15, 0.20],
         ds_sigma = [1.85 / 10 ^ 7, 2.70 / 10 ^ 6, 2.40 / 10 ^ 6, 2.20 / 10 ^ 6],
         ds_fit = False\<rparr>),
      (''NH4I (NH4+)'',
        \<lparr>ds_valency = ''Monovalent'', ds_charge = 1,
         ds_x = [0.30, 0.40, 0.50, 0.60, 0.70],
         ds_sigma = [5.1 / 10 ^ 6, 9.7 / 10 ^ 5, 3.7 / 10 ^ 4, 1.2 / 10 ^ 3, 4.5 / 10 ^ 3],
         ds_fit = True\<rparr>),
      (''Mg(NO3)2 (Mg2+)'',
        \<lparr>ds_valency = ''Divalent'', ds_charge = 2,
         ds_x = [0.30, 0.40, 0.50, 0.60],
         ds_sigma = [4.86 / 10 ^ 6, 6.86 / 10 ^ 5, 7.70 / 10 ^ 4, 7.53 / 10 ^ 4],
         ds_fit = True\<rparr>),
      (''ZnCl2 (Zn2+)'',
        \<lparr>ds_valency = ''Divalent'', ds_charge = 2,
         ds_x = [0.50, 0.60, 0.70],
         ds_sigma = [6.72 / 10 ^ 4, 4.49 / 10 ^ 3, 4.21 / 10 ^ 3],
         ds_fit = True\<rparr>)]"

section \<open>Program state, errors and the libraries\<close>

datatype py_error = RuntimeError | ValueError | KeyError string | StopIteration

text \<open>A row of \<^verbatim>\<open>fit_table\<close> is \<^verbatim>\<open>[system, charge, A, B, vpi, rmse, r2]\<close>, a row of
  \<^verbatim>\<open>raw_data_table\<close> is \<^verbatim>\<open>[system, charge, xi, si]\<close>.\<close>

type_synonym fit_row = "string \<times> int \<times> real \<times> real \<times> np_float \<times> np_float \<times> np_float"

type_synonym raw_row = "string \<times> int \<times> real \<times> real"

definition row_system :: "fit_row \<Rightarrow> string" where
  "row_system r = fst r"

definition row_A :: "fit_row \<Rightarrow> real" where
  "row_A r = fst (snd (snd r))"

definition row_B :: "fit_row \<Rightarrow> real" where
  "row_B r = fst (snd (snd (snd r)))"

definition row_vpi :: "fit_row \<Rightarrow> np_float" where
  "row_vpi r = fst (snd (snd (snd (snd r))))"

text \<open>What the figure holds: the scatter of a dataset (points, marker, colour, label) and
  the curve of a fit (grid, values, colour). Sizes, fonts, axis labels and the other
  styling calls take literals only and are not modelled.\<close>

datatype artist =
  Scatter "real list" "real list" string string string
  | Curve "real list" "np_float list" string

datatype file_content = Text string | Image "artist list"

text \<open>The module-level variables the script mutates, with what it has printed (one entry
  for each \<^verbatim>\<open>print\<close> call), drawn and written so far.\<close>

record state =
  fit_table :: "fit_row list"
  raw_data_table :: "raw_row list"
  console :: "string list"
  figure :: "artist list"
  files :: "string \<rightharpoonup> file_content"

text \<open>
  The functions of scipy and scikit-learn the script calls are parameters of the model.
  \<^verbatim>\<open>curve_fit\<close> takes the model function, the data, \<^verbatim>\<open>p0\<close>, \<^verbatim>\<open>bounds\<close> and \<^verbatim>\<open>maxfev\<close>, and
  returns the two fitted parameters or raises.
\<close>

record libs =
  curve_fit :: "(real list \<Rightarrow> real \<Rightarrow> real \<Rightarrow> np_float list) \<Rightarrow> real list \<Rightarrow> real list \<Rightarrow>
     real \<times> real \<Rightarrow> (real \<times> real) \<times> (real \<times> real) \<Rightarrow> nat \<Rightarrow> py_error + real \<times> real"
  mean_squared_error :: "real list \<Rightarrow> np_float list \<Rightarrow> py_error + np_float"
  r2_score :: "real list \<Rightarrow> np_float list \<Rightarrow> py_error + np_float"

definition p0 :: "real \<times> real" where
  "p0 = (0.05, 0.5)"

definition bounds :: "(real \<times> real) \<times> (real \<times> real)" where
  "bounds = ((1 / 10 ^ 4, 0.01), (1.0, 10.0))"

definition maxfev :: nat where
  "maxfev = 30000"

section \<open>Fitting and the console table\<close>

definition newline :: string where
  "newline = [CHR 0x0A]"

definition sep :: string where
  "sep = '' | ''"

text \<open>The superscript two of the last column title, in UTF-8.\<close>

definition header_line :: string where
  "header_line =
     ljust 18 ''System'' @ sep @ ljust 8 ''A'' @ sep @ ljust 6 ''B'' @ sep
     @ ljust 10 ''VPI=B/A'' @ sep @ ljust 10 ''RMSE'' @ sep
     @ ljust 6 (''R'' @ [CHR 0xC2, CHR 0xB2])"

definition placeholder_line :: "string \<Rightarrow> string" where
  "placeholder_line system =
     ljust 18 system @ sep @ ljust 8 ''--'' @ sep @ ljust 6 ''--'' @ sep
     @ ljust 10 ''--'' @ sep @ ljust 10 ''--'' @ sep @ ljust 6 ''--''"

definition result_line :: "fit_row \<Rightarrow> string" where
  "result_line r =
     (case r of (system, charge, A, B, vpi, rmse, r2) \<Rightarrow>
        ljust 18 system @ sep @ ljust 8 (fmt_fixed 3 A) @ sep @ ljust 6 (fmt_fixed 2 B) @ sep
        @ ljust 10 (fmt_f 2 vpi) @ sep @ ljust 10 (fmt_e 1 rmse) @ sep @ ljust 6 (fmt_f 3 r2))"

definition raw_rows :: "string \<Rightarrow> dataset \<Rightarrow> raw_row list" where
  "raw_rows system d = map (\<lambda>(xi, si). (system, ds_charge d, xi, si)) (zip (ds_x d) (ds_sigma d))"

text \<open>Lines 86 to 102: the fit of one dataset, its metrics and the row that goes to
  \<^verbatim>\<open>fit_table\<close>. Each of the three library calls may raise.\<close>

definition fit_result :: "libs \<Rightarrow> string \<Rightarrow> dataset \<Rightarrow> py_error + fit_row" where
  "fit_result L system d =
     (case curve_fit L (\<lambda>x A B. percolation_model_fixed_t_arr x A B t_default)
             (ds_x d) (ds_sigma d) p0 bounds maxfev of
        Inl e \<Rightarrow> Inl e
      | Inr (A, B) \<Rightarrow>
          let y_fit = percolation_model_fixed_t_arr (ds_x d) A B t_default
          in (case mean_squared_error L (ds_sigma d) y_fit of
                Inl e \<Rightarrow> Inl e
              | Inr mse \<Rightarrow>
                  let rmse = np_sqrt mse
                  in (case r2_score L (ds_sigma d) y_fit of
                        Inl e \<Rightarrow> Inl e
                      | Inr r2 \<Rightarrow>
                          let vpi = np_div B A
                          in Inr (system, ds_charge d, A, B, vpi, rmse, r2))))"

text \<open>The body of the first loop, at one item of the registry. An exception leaves the
  loop with the state reached so far.\<close>

definition fit_step :: "libs \<Rightarrow> string \<times> dataset \<Rightarrow> state \<Rightarrow> py_error \<times> state + state" where
  "fit_step L sd st =
     (case sd of (system, d) \<Rightarrow>
        let st1 = st\<lparr>raw_data_table := raw_data_table st @ raw_rows system d\<rparr>
        in if \<not> ds_fit d then Inr (st1\<lparr>console := console st1 @ [placeholder_line system]\<rparr>)
           else
             (case fit_result L system d of
                Inl e \<Rightarrow> Inl (e, st1)
              | Inr row \<Rightarrow>
                  Inr (st1\<lparr>fit_table := fit_table st1 @ [row],
                          console := console st1 @ [result_line row]\<rparr>)))"

fun fit_loop :: "libs \<Rightarrow> registry \<Rightarrow> state \<Rightarrow> py_error \<times> state + state" where
  "fit_loop L [] st = Inr st"
| "fit_loop L (sd # rest) st =
     (case fit_step L sd st of Inl e \<Rightarrow> Inl e | Inr st' \<Rightarrow> fit_loop L rest st')"

section \<open>The figure\<close>

text \<open>\<^verbatim>\<open>np.linspace(0.05, 0.80, 400)\<close>.\<close>

definition x_smooth :: "real list" where
  "x_smooth = map (\<lambda>i. 0.05 + real i * ((0.80 - 0.05) / 399)) [0..<400]"

definition colors :: "(string \<times> string) list" where
  "colors =
     [(''LiCl (Li+)'', ''red''), (''NaN3 (Na+)'', ''orange''), (''NH4I (NH4+)'', ''gold''),
      (''Mg(NO3)2 (Mg2+)'', ''purple''), (''ZnCl2 (Zn2+)'', ''brown'')]"

definition markers :: "(string \<times> string) list" where
  "markers = [(''Monovalent'', ''o''), (''Divalent'', ''^'')]"

text \<open>The body of the second loop. The two dictionary lookups raise \<^verbatim>\<open>KeyError\<close> on a
  missing key, the marker first; \<^verbatim>\<open>plt.scatter\<close> raises \<^verbatim>\<open>ValueError\<close> when the two arrays
  differ in length; \<^verbatim>\<open>next\<close> on the generator over \<^verbatim>\<open>fit_table\<close> returns the first row of
  the system and raises \<^verbatim>\<open>StopIteration\<close> when there is none.\<close>

definition plot_step :: "string \<times> dataset \<Rightarrow> state \<Rightarrow> py_error \<times> state + state" where
  "plot_step sd st =
     (case sd of (system, d) \<Rightarrow>
        (case map_of markers (ds_valency d) of
           None \<Rightarrow> Inl (KeyError (ds_valency d), st)
         | Some m \<Rightarrow>
             (case map_of colors system of
                None \<Rightarrow> Inl (KeyError system, st)
              | Some c \<Rightarrow>
                  if length (ds_x d) \<noteq> length (ds_sigma d) then Inl (ValueError, st)
                  else
                    let st1 = st\<lparr>figure := figure st @
                                [Scatter (ds_x d) (ds_sigma d) m c system]\<rparr>
                    in if ds_fit d then
                         (case find (\<lambda>r. row_system r = system) (fit_table st1) of
                            None \<Rightarrow> Inl (StopIteration, st1)
                          | Some row \<Rightarrow>
                              Inr (st1\<lparr>figure := figure st1 @
                                [Curve x_smooth
                                   (percolation_model_fixed_t_arr x_smooth (row_A row)
                                      (row_B row) t_default) c]\<rparr>))
                       else Inr st1)))"

fun plot_loop :: "registry \<Rightarrow> state \<Rightarrow> py_error \<times> state + state" where
  "plot_loop [] st = Inr st"
| "plot_loop (sd # rest) st =
     (case plot_step sd st of Inl e \<Rightarrow> Inl e | Inr st' \<Rightarrow> plot_loop rest st')"

section \<open>The two CSV files\<close>

definition raw_header :: string where
  "raw_header = ''System,Charge,Salt_Weight_Fraction,Conductivity_S_cm'' @ newline"

definition raw_line :: "raw_row \<Rightarrow> string" where
  "raw_line r =
     (case r of (system, charge, xi, si) \<Rightarrow>
        system @ '','' @ str_int charge @ '','' @ fmt_fixed 2 xi @ '','' @ fmt_sci 3 si @ newline)"

text \<open>The text written to \<^verbatim>\<open>SI_Raw_Digitized_Data.csv\<close>: it is produced from the registry,
  not from \<^verbatim>\<open>raw_data_table\<close>.\<close>

definition raw_csv :: "registry \<Rightarrow> string" where
  "raw_csv reg =
     raw_header @ concat (map (\<lambda>(system, d). concat (map raw_line (raw_rows system d))) reg)"

definition params_header :: string where
  "params_header = ''System,Charge,A,B,VPI,RMSE_S_cm,R2'' @ newline"

definition params_line :: "fit_row \<Rightarrow> string" where
  "params_line r =
     (case r of (system, charge, A, B, VPI, rmse, r2) \<Rightarrow>
        system @ '','' @ str_int charge @ '','' @ fmt_fixed 4 A @ '','' @ fmt_fixed 4 B @ '',''
        @ fmt_f 2 VPI @ '','' @ fmt_e 3 rmse @ '','' @ fmt_f 3 r2 @ newline)"

text \<open>The text written to \<^verbatim>\<open>SI_Fitted_Parameters_and_VPI.csv\<close>.\<close>

definition params_csv :: "fit_row list \<Rightarrow> string" where
  "params_csv tab = params_header @ concat (map params_line tab)"

section \<open>The script\<close>

definition fig_file :: string where
  "fig_file = ''Fig1_Salt_Resolved_Conductivity_FINAL.svg''"

definition raw_file :: string where
  "raw_file = ''SI_Raw_Digitized_Data.csv''"

definition params_file :: string where
  "params_file = ''SI_Fitted_Parameters_and_VPI.csv''"

definition initial_state :: state where
  "initial_state =
     \<lparr>fit_table = [], raw_data_table = [], console = [], figure = [], files = Map.empty\<rparr>"

text \<open>The bullet that starts the last two printed lines, in UTF-8.\<close>

definition bullet :: string where
  "bullet = [CHR 0xE2, CHR 0x80, CHR 0xA2]"

text \<open>The state after the three prints that open the table, and the three lines printed
  at the very end.\<close>

definition start_state :: state where
  "start_state =
     initial_state\<lparr>console :=
       [newline @ replicate 110 (CHR ''=''), header_line, replicate 110 (CHR ''-'')]\<rparr>"

definition closing_lines :: "string list" where
  "closing_lines =
     [newline @ ''SI FILES GENERATED (NO PANDAS REQUIRED):'',
      bullet @ '' SI_Raw_Digitized_Data.csv'',
      bullet @ '' SI_Fitted_Parameters_and_VPI.csv'']"

text \<open>
  The module body, top to bottom, over a registry: the table header, the fitting loop,
  the figure and its file, the two CSV files, the closing lines. The script is
  \<open>main L data_registry\<close>. An exception ends the run where it is raised, with the state
  reached so far.
\<close>

definition main :: "libs \<Rightarrow> registry \<Rightarrow> py_error \<times> state + state" where
  "main L reg =
     (case fit_loop L reg start_state of
        Inl e \<Rightarrow> Inl e
      | Inr st1 \<Rightarrow>
          let st2 = st1\<lparr>console := console st1 @ [replicate 110 (CHR ''='')]\<rparr>
          in (case plot_loop reg st2 of
                Inl e \<Rightarrow> Inl e
              | Inr st3 \<Rightarrow>
                  let st4 = st3\<lparr>files := (files st3)(fig_file \<mapsto> Image (figure st3))\<rparr>;
                      st5 = st4\<lparr>files := (files st4)(raw_file \<mapsto> Text (raw_csv reg))\<rparr>;
                      st6 = st5\<lparr>files := (files st5)
                              (params_file \<mapsto> Text (params_csv (fit_table st5)))\<rparr>
                  in Inr (st6\<lparr>console := console st6 @ closing_lines\<rparr>)))"

section \<open>Outcome of the two loops\<close>

text \<open>
  What the loops do is summed up by a few functions of the registry, used to state and
  prove the properties below. A dataset passes the first loop when it is not fitted or
  its fit raises nothing; \<open>the_row\<close> is the row it then adds to \<^verbatim>\<open>fit_table\<close> and
  \<open>table_line\<close> the line it prints.
\<close>

definition fit_ok :: "libs \<Rightarrow> string \<times> dataset \<Rightarrow> bool" where
  "fit_ok L sd = (ds_fit (snd sd) \<longrightarrow> \<not> isl (fit_result L (fst sd) (snd sd)))"

definition the_row :: "libs \<Rightarrow> string \<times> dataset \<Rightarrow> fit_row" where
  "the_row L sd = projr (fit_result L (fst sd) (snd sd))"

definition table_line :: "libs \<Rightarrow> string \<times> dataset \<Rightarrow> string" where
  "table_line L sd =
     (if ds_fit (snd sd) then result_line (the_row L sd) else placeholder_line (fst sd))"

definition fitted :: "registry \<Rightarrow> registry" where
  "fitted reg = filter (\<lambda>sd. ds_fit (snd sd)) reg"

text \<open>All the points of the registry, in its order: the rows of \<^verbatim>\<open>raw_data_table\<close>.\<close>

definition registry_points :: "registry \<Rightarrow> raw_row list" where
  "registry_points reg = concat (map (\<lambda>(system, d). raw_rows system d) reg)"

text \<open>The state a first loop without exception ends in.\<close>

definition after_fit :: "libs \<Rightarrow> registry \<Rightarrow> state \<Rightarrow> state" where
  "after_fit L reg st =
     st\<lparr>fit_table := fit_table st @ map (the_row L) (fitted reg),
        raw_data_table := raw_data_table st @ registry_points reg,
        console := console st @ map (table_line L) reg\<rparr>"

text \<open>A dataset passes the second loop when its valency has a marker, its name has a
  colour, its two arrays have the same length and, if it is fitted, \<^verbatim>\<open>fit_table\<close> has a
  row of its name; \<open>artists_of\<close> is what it then adds to the figure.\<close>

definition keys_ok :: "string \<times> dataset \<Rightarrow> bool" where
  "keys_ok sd =
     (map_of markers (ds_valency (snd sd)) \<noteq> None \<and> map_of colors (fst sd) \<noteq> None
      \<and> length (ds_x (snd sd)) = length (ds_sigma (snd sd)))"

definition plot_ok :: "fit_row list \<Rightarrow> string \<times> dataset \<Rightarrow> bool" where
  "plot_ok tab sd =
     (keys_ok sd \<and> (ds_fit (snd sd) \<longrightarrow> find (\<lambda>r. row_system r = fst sd) tab \<noteq> None))"

definition artists_of :: "fit_row list \<Rightarrow> string \<times> dataset \<Rightarrow> artist list" where
  "artists_of tab sd =
     Scatter (ds_x (snd sd)) (ds_sigma (snd sd)) (the (map_of markers (ds_valency (snd sd))))
        (the (map_of colors (fst sd))) (fst sd)
     # (if ds_fit (snd sd) then
          [Curve x_smooth
             (percolation_model_fixed_t_arr x_smooth
                (row_A (the (find (\<lambda>r. row_system r = fst sd) tab)))
                (row_B (the (find (\<lambda>r. row_system r = fst sd) tab))) t_default)
             (the (map_of colors (fst sd)))]
        else [])"

text \<open>The rows a fit can produce.\<close>

definition fit_rows :: "libs \<Rightarrow> fit_row set" where
  "fit_rows L = {r. \<exists>system d. fit_result L system d = Inr r}"

text \<open>The state a run ends or stops in.\<close>

definition final_state :: "py_error \<times> state + state \<Rightarrow> state" where
  "final_state r = (case r of Inl (e, st) \<Rightarrow> st | Inr st \<Rightarrow> st)"

text \<open>The contract of \<^verbatim>\<open>curve_fit\<close> with \<^verbatim>\<open>bounds\<close>, for the call the script makes:
  parameters it returns lie between the lower and the upper bounds.\<close>

definition respects_bounds :: "libs \<Rightarrow> bool" where
  "respects_bounds L =
     (\<forall>f xs ys A B.
        curve_fit L f xs ys p0 bounds maxfev = Inr (A, B) \<longrightarrow>
          fst (fst bounds) \<le> A \<and> A \<le> fst (snd bounds)
          \<and> snd (fst bounds) \<le> B \<and> B \<le> snd (snd bounds))"

text \<open>Libraries to run the model with: a fit that returns a fixed pair of parameters, a
  zero error and an \<open>R\<^sup>2\<close> of one; and a fit that fails on every dataset whose first
  fraction is \<open>0.30\<close>.\<close>

definition const_libs :: "real \<times> real \<Rightarrow> libs" where
  "const_libs ab =
     \<lparr>curve_fit = (\<lambda>f xs ys p b n. Inr ab),
      mean_squared_error = (\<lambda>y y_fit. Inr (Fin 0)),
      r2_score = (\<lambda>y y_fit. Inr (Fin 1))\<rparr>"

definition failing_libs :: libs where
  "failing_libs =
     \<lparr>curve_fit = (\<lambda>f xs ys p b n. if take 1 xs = [0.30] then Inl RuntimeError else Inr p),
      mean_squared_error = (\<lambda>y y_fit. Inr (Fin 0)),
      r2_score = (\<lambda>y y_fit. Inr (Fin 1))\<rparr>"

section \<open>Reading a CSV file back\<close>

text \<open>
  The reader's side of the two files, which is not part of the script: a text is cut into
  lines at the newlines and each line into fields at the commas; a number is read as the
  real its decimal notation denotes. A name is clean when it has no comma and no newline.
\<close>

fun split_on :: "char \<Rightarrow> string \<Rightarrow> string list" where
  "split_on c [] = [[]]"
| "split_on c (a # s) =
     (if a = c then [] # split_on c s else (a # hd (split_on c s)) # tl (split_on c s))"

definition text_lines :: "string \<Rightarrow> string list" where
  "text_lines t = (let ls = split_on (CHR 0x0A) t in if last ls = [] then butlast ls else ls)"

definition csv_rows :: "string \<Rightarrow> string list list" where
  "csv_rows t = map (split_on (CHR '','')) (text_lines t)"

definition clean :: "string \<Rightarrow> bool" where
  "clean s = (CHR '','' \<notin> set s \<and> CHR 0x0A \<notin> set s)"

fun join_commas :: "string list \<Rightarrow> string" where
  "join_commas [] = []"
| "join_commas [f] = f"
| "join_commas (f # g # fs) = f @ '','' @ join_commas (g # fs)"

definition is_digit :: "char \<Rightarrow> bool" where
  "is_digit c = (48 \<le> (of_char c :: nat) \<and> (of_char c :: nat) \<le> 57)"

definition digits_value :: "string \<Rightarrow> nat" where
  "digits_value s = foldl (\<lambda>n c. 10 * n + (of_char c - 48)) 0 s"

definition parse_nat :: "string \<Rightarrow> nat option" where
  "parse_nat s = (if s \<noteq> [] \<and> list_all is_digit s then Some (digits_value s) else None)"

definition parse_int :: "string \<Rightarrow> int option" where
  "parse_int s =
     (case s of
        [] \<Rightarrow> None
      | c # r \<Rightarrow>
          if c = CHR ''-'' then map_option (\<lambda>n. - int n) (parse_nat r)
          else if c = CHR ''+'' then map_option int (parse_nat r)
          else map_option int (parse_nat s))"

text \<open>Digits, an optional point with digits, an optional exponent.\<close>

definition parse_unsigned :: "string \<Rightarrow> real option" where
  "parse_unsigned s =
     (let m = takeWhile (\<lambda>c. c \<noteq> CHR ''e'') s; ex = dropWhile (\<lambda>c. c \<noteq> CHR ''e'') s;
          ip = takeWhile (\<lambda>c. c \<noteq> CHR ''.'') m; fp = dropWhile (\<lambda>c. c \<noteq> CHR ''.'') m
      in case parse_nat ip of
           None \<Rightarrow> None
         | Some i \<Rightarrow>
             (case (if fp = [] then Some 0 else parse_nat (tl fp)) of
                None \<Rightarrow> None
              | Some f \<Rightarrow>
                  (case (if ex = [] then Some 0 else parse_int (tl ex)) of
                     None \<Rightarrow> None
                   | Some e \<Rightarrow> Some ((real i + real f / 10 ^ (length fp - 1)) * 10 powi e))))"

definition parse_float :: "string \<Rightarrow> real option" where
  "parse_float s =
     (case s of
        [] \<Rightarrow> None
      | c # r \<Rightarrow> if c = CHR ''-'' then map_option uminus (parse_unsigned r) else parse_unsigned s)"

text \<open>The fields of the line written for a row, and the row read from four fields.\<close>

definition raw_fields :: "raw_row \<Rightarrow> string list" where
  "raw_fields r =
     (case r of (system, charge, xi, si) \<Rightarrow>
        [system, str_int charge, fmt_fixed 2 xi, fmt_sci 3 si])"

definition params_fields :: "fit_row \<Rightarrow> string list" where
  "params_fields r =
     (case r of (system, charge, A, B, VPI, rmse, r2) \<Rightarrow>
        [system, str_int charge, fmt_fixed 4 A, fmt_fixed 4 B, fmt_f 2 VPI, fmt_e 3 rmse,
         fmt_f 3 r2])"

definition parse_raw_row :: "string list \<Rightarrow> raw_row option" where
  "parse_raw_row fs =
     (case fs of
        [s, c, f, v] \<Rightarrow>
          (case (parse_int c, parse_float f, parse_float v) of
             (Some c', Some f', Some v') \<Rightarrow> Some (s, c', f', v')
           | _ \<Rightarrow> None)
      | _ \<Rightarrow> None)"

text \<open>The value that the notation \<^verbatim>\<open>.pe\<close> of \<open>v\<close> denotes.\<close>

definition sci_value :: "nat \<Rightarrow> real \<Rightarrow> real" where
  "sci_value p v =
     (if v < 0 then - 1 else 1)
     * (real (fst (sci_parts p \<bar>v\<bar>)) / 10 ^ p * 10 powi snd (sci_parts p \<bar>v\<bar>))"

text \<open>A row read back is the row written up to the rounding of the two formats: half a
  unit of the second decimal of the fraction, half a unit of the third decimal of the
  mantissa of the conductivity.\<close>

definition close_row :: "raw_row \<Rightarrow> raw_row \<Rightarrow> bool" where
  "close_row r' r =
     (case (r', r) of
        ((s', c', x', v'), (s, c, x, v)) \<Rightarrow>
          s' = s \<and> c' = c \<and> \<bar>x' - x\<bar> \<le> 0.005 \<and> \<bar>v' - v\<bar> \<le> 0.0005 * \<bar>v\<bar>)"

section \<open>Properties of the model evaluator\<close>


























section \<open>The two loops and the run\<close>

lemma after_fit_Nil: "after_fit L [] st = st"
  by (simp add: after_fit_def fitted_def registry_points_def)

lemma fit_step_ok:
  "fit_ok L sd \<Longrightarrow> fit_step L sd st = Inr (after_fit L [sd] st)"
  by (cases sd; cases "fit_result L (fst sd) (snd sd)")
     (auto simp: fit_ok_def fit_step_def after_fit_def fitted_def registry_points_def the_row_def
        table_line_def Let_def)

lemma after_fit_Cons: "after_fit L (sd # reg) st = after_fit L reg (after_fit L [sd] st)"
  by (simp add: after_fit_def fitted_def registry_points_def)

lemma fit_loop_ok:
  "\<forall>sd \<in> set reg. fit_ok L sd \<Longrightarrow> fit_loop L reg st = Inr (after_fit L reg st)"
proof (induction reg arbitrary: st)
  case Nil
  then show ?case by (simp add: after_fit_Nil)
next
  case (Cons sd reg)
  then show ?case
    by (simp add: fit_step_ok after_fit_Cons [of L sd reg])
qed

lemma fit_step_fail:
  "\<not> fit_ok L sd \<Longrightarrow> fit_step L sd st =
     Inl (projl (fit_result L (fst sd) (snd sd)), st\<lparr>raw_data_table := raw_data_table st @ raw_rows (fst sd) (snd sd)\<rparr>)"
  by (cases sd; cases "fit_result L (fst sd) (snd sd)")
     (auto simp: fit_ok_def fit_step_def Let_def)

lemma fit_loop_append:
  "fit_loop L (xs @ ys) st = (case fit_loop L xs st of Inl e \<Rightarrow> Inl e | Inr st' \<Rightarrow> fit_loop L ys st')"
  by (induction xs arbitrary: st) (auto split: sum.splits)

lemma fit_loop_fail:
  assumes "\<forall>sd' \<in> set pre. fit_ok L sd'" and "\<not> fit_ok L sd"
  shows "fit_loop L (pre @ sd # post) st =
     Inl (projl (fit_result L (fst sd) (snd sd)),
          (after_fit L pre st)\<lparr>raw_data_table := raw_data_table (after_fit L pre st) @ raw_rows (fst sd) (snd sd)\<rparr>)"
  using assms by (simp add: fit_loop_append fit_loop_ok fit_step_fail)

lemma fit_loop_Inr_iff:
  "(\<exists>st'. fit_loop L reg st = Inr st') \<longleftrightarrow> (\<forall>sd \<in> set reg. fit_ok L sd)"
proof
  assume "\<exists>st'. fit_loop L reg st = Inr st'"
  then show "\<forall>sd \<in> set reg. fit_ok L sd"
  proof (induction reg arbitrary: st)
    case Nil
    then show ?case by simp
  next
    case (Cons sd reg)
    then show ?case
      by (cases "fit_ok L sd") (auto simp: fit_step_ok fit_step_fail)
  qed
next
  assume "\<forall>sd \<in> set reg. fit_ok L sd"
  then show "\<exists>st'. fit_loop L reg st = Inr st'"
    by (simp add: fit_loop_ok)
qed

lemma fit_result_Inr:
  assumes "fit_result L system d = Inr row"
  shows "\<exists>A B rmse r2. row = (system, ds_charge d, A, B, np_div B A, rmse, r2)
     \<and> curve_fit L (\<lambda>x A B. percolation_model_fixed_t_arr x A B t_default) (ds_x d) (ds_sigma d) p0 bounds maxfev = Inr (A, B)"
  using assms by (auto simp: fit_result_def Let_def split: sum.splits prod.splits)

lemma the_row_system: "ds_fit (snd sd) \<Longrightarrow> fit_ok L sd \<Longrightarrow> row_system (the_row L sd) = fst sd"
proof -
  assume "ds_fit (snd sd)" "fit_ok L sd"
  then obtain row where r: "fit_result L (fst sd) (snd sd) = Inr row"
    by (cases "fit_result L (fst sd) (snd sd)") (auto simp: fit_ok_def)
  from fit_result_Inr [OF r] show ?thesis
    by (auto simp: the_row_def r row_system_def)
qed

lemma plot_step_ok:
  "plot_ok (fit_table st) sd \<Longrightarrow>
     plot_step sd st = Inr (st\<lparr>figure := figure st @ artists_of (fit_table st) sd\<rparr>)"
  by (cases sd) (auto simp: plot_ok_def keys_ok_def plot_step_def artists_of_def Let_def)

lemma plot_loop_ok:
  "\<forall>sd \<in> set reg. plot_ok (fit_table st) sd \<Longrightarrow>
     plot_loop reg st = Inr (st\<lparr>figure := figure st @ concat (map (artists_of (fit_table st)) reg)\<rparr>)"
proof (induction reg arbitrary: st)
  case Nil
  then show ?case by simp
next
  case (Cons sd reg)
  then show ?case
    by (simp add: plot_step_ok)
qed

lemma plot_step_fit_table:
  "plot_step sd st = Inr st' \<Longrightarrow> fit_table st' = fit_table st"
  by (cases sd) (auto simp: plot_step_def Let_def split: option.splits if_splits)

lemma plot_step_Inl:
  "plot_step sd st = Inl (e, st') \<Longrightarrow> \<not> plot_ok (fit_table st) sd"
  by (cases sd) (auto simp: plot_step_def plot_ok_def keys_ok_def Let_def split: option.splits if_splits)

lemma plot_step_StopIteration:
  "plot_step sd st = Inl (StopIteration, st') \<Longrightarrow>
     ds_fit (snd sd) \<and> find (\<lambda>r. row_system r = fst sd) (fit_table st) = None"
  by (cases sd) (auto simp: plot_step_def Let_def split: option.splits if_splits)

lemma plot_loop_StopIteration:
  "plot_loop reg st = Inl (StopIteration, st') \<Longrightarrow>
     \<exists>sd \<in> set reg. ds_fit (snd sd) \<and> find (\<lambda>r. row_system r = fst sd) (fit_table st) = None"
proof (induction reg arbitrary: st)
  case Nil
  then show ?case by simp
next
  case (Cons sd reg)
  show ?case
  proof (cases "plot_step sd st")
    case (Inl a)
    with Cons.prems have "plot_step sd st = Inl (StopIteration, st')" by simp
    from plot_step_StopIteration [OF this] show ?thesis by simp
  next
    case (Inr st1)
    with Cons.prems have "plot_loop reg st1 = Inl (StopIteration, st')" by simp
    from Cons.IH [OF this] plot_step_fit_table [OF Inr] show ?thesis by simp
  qed
qed

lemma plot_loop_Inr_iff:
  "(\<exists>st'. plot_loop reg st = Inr st') \<longleftrightarrow> (\<forall>sd \<in> set reg. plot_ok (fit_table st) sd)"
proof
  assume "\<exists>st'. plot_loop reg st = Inr st'"
  then show "\<forall>sd \<in> set reg. plot_ok (fit_table st) sd"
  proof (induction reg arbitrary: st)
    case Nil
    then show ?case by simp
  next
    case (Cons sd reg)
    show ?case
    proof (cases "plot_step sd st")
      case (Inl a)
      with Cons.prems show ?thesis by simp
    next
      case (Inr st1)
      have ok: "plot_ok (fit_table st) sd"
      proof (rule ccontr)
        assume "\<not> plot_ok (fit_table st) sd"
        then have "isl (plot_step sd st)"
          by (cases sd) (auto simp: plot_step_def plot_ok_def keys_ok_def Let_def split: option.splits)
        with Inr show False by simp
      qed
      from Cons.prems Inr have "\<exists>st'. plot_loop reg st1 = Inr st'" by simp
      from Cons.IH [OF this] plot_step_fit_table [OF Inr] ok show ?thesis by simp
    qed
  qed
next
  assume "\<forall>sd \<in> set reg. plot_ok (fit_table st) sd"
  then show "\<exists>st'. plot_loop reg st = Inr st'"
    by (simp add: plot_loop_ok)
qed

lemma find_the_row:
  assumes "sd \<in> set reg" "ds_fit (snd sd)" "fit_ok L sd"
  shows "find (\<lambda>r. row_system r = fst sd) (map (the_row L) (fitted reg)) \<noteq> None"
proof -
  have "the_row L sd \<in> set (map (the_row L) (fitted reg))"
    using assms by (simp add: fitted_def)
  moreover have "row_system (the_row L sd) = fst sd"
    using assms by (simp add: the_row_system)
  ultimately show ?thesis
    unfolding find_None_iff by blast
qed

lemma fit_table_after_fit:
  "fit_table (after_fit L reg st) = fit_table st @ map (the_row L) (fitted reg)"
  by (simp add: after_fit_def)

lemma main_fit_fail:
  assumes "\<not> (\<forall>sd \<in> set reg. fit_ok L sd)"
  shows "\<exists>e st. main L reg = Inl (e, st) \<and> fit_loop L reg start_state = Inl (e, st)"
proof -
  from assms fit_loop_Inr_iff [of L reg start_state]
  obtain e st where "fit_loop L reg start_state = Inl (e, st)"
    by (cases "fit_loop L reg start_state") auto
  then show ?thesis
    by (simp add: main_def)
qed

lemma main_ok:
  assumes "\<forall>sd \<in> set reg. fit_ok L sd" and "\<forall>sd \<in> set reg. keys_ok sd"
  shows "main L reg = Inr
    \<lparr>fit_table = map (the_row L) (fitted reg),
     raw_data_table = registry_points reg,
     console = console start_state @ map (table_line L) reg @ [replicate 110 (CHR ''='')] @ closing_lines,
     figure = concat (map (artists_of (map (the_row L) (fitted reg))) reg),
     files = [fig_file \<mapsto> Image (concat (map (artists_of (map (the_row L) (fitted reg))) reg)),
              raw_file \<mapsto> Text (raw_csv reg),
              params_file \<mapsto> Text (params_csv (map (the_row L) (fitted reg)))]\<rparr>"
proof -
  let ?tab = "map (the_row L) (fitted reg)"
  have fl: "fit_loop L reg start_state = Inr (after_fit L reg start_state)"
    using assms(1) by (rule fit_loop_ok)
  let ?st2 = "(after_fit L reg start_state)\<lparr>console := console (after_fit L reg start_state) @ [replicate 110 (CHR ''='')]\<rparr>"
  have tab: "fit_table ?st2 = ?tab"
    by (simp add: after_fit_def start_state_def initial_state_def)
  have "\<forall>sd \<in> set reg. plot_ok (fit_table ?st2) sd"
    unfolding tab plot_ok_def keys_ok_def using assms find_the_row [of _ reg L] by (auto simp: keys_ok_def)
  then have pl: "plot_loop reg ?st2 = Inr (?st2\<lparr>figure := figure ?st2 @ concat (map (artists_of (fit_table ?st2)) reg)\<rparr>)"
    by (rule plot_loop_ok)
  have "main L reg = (case fit_loop L reg start_state of Inl e \<Rightarrow> Inl e
     | Inr st1 \<Rightarrow> (case plot_loop reg (st1\<lparr>console := console st1 @ [replicate 110 (CHR ''='')]\<rparr>) of
           Inl e \<Rightarrow> Inl e
         | Inr st3 \<Rightarrow> Inr (st3\<lparr>files := (files st3)(fig_file \<mapsto> Image (figure st3), raw_file \<mapsto> Text (raw_csv reg),
               params_file \<mapsto> Text (params_csv (fit_table st3))),
              console := console st3 @ closing_lines\<rparr>)))"
    by (simp add: main_def Let_def split: sum.splits)
  also have "\<dots> = Inr ((?st2\<lparr>figure := figure ?st2 @ concat (map (artists_of (fit_table ?st2)) reg)\<rparr>)
       \<lparr>files := (files ?st2)(fig_file \<mapsto> Image (figure ?st2 @ concat (map (artists_of (fit_table ?st2)) reg)), raw_file \<mapsto> Text (raw_csv reg),
               params_file \<mapsto> Text (params_csv (fit_table ?st2))),
              console := console ?st2 @ closing_lines\<rparr>)"
    by (simp add: fl pl)
  also have "\<dots> = Inr
    \<lparr>fit_table = ?tab,
     raw_data_table = registry_points reg,
     console = console start_state @ map (table_line L) reg @ [replicate 110 (CHR ''='')] @ closing_lines,
     figure = concat (map (artists_of ?tab) reg),
     files = [fig_file \<mapsto> Image (concat (map (artists_of ?tab) reg)),
              raw_file \<mapsto> Text (raw_csv reg),
              params_file \<mapsto> Text (params_csv ?tab)]\<rparr>"
    by (simp add: after_fit_def start_state_def initial_state_def)
  finally show ?thesis .
qed

lemma main_plot_fail:
  assumes "\<forall>sd \<in> set reg. fit_ok L sd" and "\<not> (\<forall>sd \<in> set reg. keys_ok sd)"
  shows "isl (main L reg)"
proof -
  have fl: "fit_loop L reg start_state = Inr (after_fit L reg start_state)"
    using assms(1) by (rule fit_loop_ok)
  let ?st2 = "(after_fit L reg start_state)\<lparr>console := console (after_fit L reg start_state) @ [replicate 110 (CHR ''='')]\<rparr>"
  from assms(2) have "\<not> (\<forall>sd \<in> set reg. plot_ok (fit_table ?st2) sd)"
    by (auto simp: plot_ok_def keys_ok_def)
  with plot_loop_Inr_iff [of reg ?st2] have "isl (plot_loop reg ?st2)"
    by (cases "plot_loop reg ?st2") auto
  then show ?thesis
    using fl by (cases "plot_loop reg ?st2") (simp_all add: main_def Let_def)
qed

lemma main_Inr_iff:
  "(\<exists>st. main L reg = Inr st) \<longleftrightarrow> (\<forall>sd \<in> set reg. fit_ok L sd \<and> keys_ok sd)"
proof (cases "\<forall>sd \<in> set reg. fit_ok L sd")
  case False
  with main_fit_fail [of reg L] show ?thesis by auto
next
  case True
  show ?thesis
  proof (cases "\<forall>sd \<in> set reg. keys_ok sd")
    case True
    with \<open>\<forall>sd \<in> set reg. fit_ok L sd\<close> main_ok [of reg L] show ?thesis by auto
  next
    case False
    with True main_plot_fail [of reg L] show ?thesis by auto
  qed
qed

section \<open>Formats read back\<close>

lemma of_char_digit_char: "d < 10 \<Longrightarrow> (of_char (digit_char d) :: nat) = 48 + d"
  by (simp add: digit_char_def)

lemma is_digit_digit_char: "d < 10 \<Longrightarrow> is_digit (digit_char d)"
  by (simp add: is_digit_def of_char_digit_char)

lemma str_nat_digits: "list_all is_digit (str_nat n)"
proof (induction n rule: str_nat.induct)
  case (1 n)
  show ?case
  proof (cases "n < 10")
    case True
    then show ?thesis
      by (subst str_nat.simps) (simp add: is_digit_digit_char)
  next
    case False
    with 1 show ?thesis
      by (subst str_nat.simps) (simp add: is_digit_digit_char)
  qed
qed

lemma str_nat_nonempty: "str_nat n \<noteq> []"
  by (subst str_nat.simps) simp

lemma digits_value_snoc: "digits_value (s @ [c]) = 10 * digits_value s + (of_char c - 48)"
  by (simp add: digits_value_def)

lemma digits_value_str_nat: "digits_value (str_nat n) = n"
proof (induction n rule: str_nat.induct)
  case (1 n)
  show ?case
  proof (cases "n < 10")
    case True
    then show ?thesis
      by (subst str_nat.simps) (simp add: digits_value_def of_char_digit_char)
  next
    case False
    with 1 show ?thesis
      by (subst str_nat.simps) (simp add: digits_value_snoc of_char_digit_char)
  qed
qed

lemma parse_nat_str_nat: "parse_nat (str_nat n) = Some n"
  by (simp add: parse_nat_def str_nat_digits str_nat_nonempty digits_value_str_nat)

lemma foldl_zeros:
  "foldl (\<lambda>n c. 10 * n + (of_char c - 48)) 0 (replicate k (CHR ''0'')) = (0::nat)"
  by (induction k) simp_all

lemma digits_value_zeros: "digits_value (replicate k (CHR ''0'') @ s) = digits_value s"
  by (simp add: digits_value_def foldl_zeros)

lemma length_str_nat: "n < 10 ^ p \<Longrightarrow> 0 < p \<Longrightarrow> length (str_nat n) \<le> p"
proof (induction n arbitrary: p rule: str_nat.induct)
  case (1 n)
  show ?case
  proof (cases "n < 10")
    case True
    with 1 show ?thesis
      by (subst str_nat.simps) simp
  next
    case False
    from \<open>0 < p\<close> obtain q where p: "p = Suc q"
      by (cases p) auto
    from False 1(2) have q: "0 < q"
      unfolding p by (cases q) auto
    from 1(2) have "n div 10 < 10 ^ q"
      unfolding p by (simp add: less_mult_imp_div_less mult.commute)
    with 1(1) [OF False _ q] False show ?thesis
      by (subst str_nat.simps) (simp add: p)
  qed
qed

lemma zfill_digits: "list_all is_digit s \<Longrightarrow> list_all is_digit (zfill p s)"
  by (auto simp: zfill_def is_digit_def list_all_iff)

lemma length_zfill_str_nat: "n < 10 ^ p \<Longrightarrow> 0 < p \<Longrightarrow> length (zfill p (str_nat n)) = p"
  using length_str_nat [of n p] by (simp add: zfill_def)

lemma parse_nat_zfill: "parse_nat (zfill p (str_nat n)) = Some n"
  by (simp add: parse_nat_def zfill_digits str_nat_digits digits_value_str_nat)
     (simp add: zfill_def digits_value_zeros digits_value_str_nat str_nat_nonempty)

lemma digit_not_special:
  "is_digit c \<Longrightarrow> c \<noteq> CHR ''e'' \<and> c \<noteq> CHR ''.'' \<and> c \<noteq> CHR '','' \<and> c \<noteq> CHR 0x0A
     \<and> c \<noteq> CHR ''-'' \<and> c \<noteq> CHR ''+''"
  by (auto simp: is_digit_def)

lemma digits_no_char:
  assumes "list_all is_digit s" and "\<not> is_digit c"
  shows "c \<notin> set s"
  using assms by (auto simp: list_all_iff)

lemma decimal_digits_split:
  assumes "k mod 10 ^ p < 10 ^ p \<or> p = 0"
  shows "takeWhile (\<lambda>c. c \<noteq> CHR ''.'') (decimal_digits p k) = str_nat (k div 10 ^ p)"
    and "dropWhile (\<lambda>c. c \<noteq> CHR ''.'') (decimal_digits p k) =
           (if p = 0 then [] else ''.'' @ zfill p (str_nat (k mod 10 ^ p)))"
proof -
  have nd: "\<forall>c \<in> set (str_nat (k div 10 ^ p)). c \<noteq> CHR ''.''"
    using str_nat_digits [of "k div 10 ^ p"] digit_not_special by (auto simp: list_all_iff)
  show "takeWhile (\<lambda>c. c \<noteq> CHR ''.'') (decimal_digits p k) = str_nat (k div 10 ^ p)"
    using nd by (simp add: decimal_digits_def takeWhile_append2)
  show "dropWhile (\<lambda>c. c \<noteq> CHR ''.'') (decimal_digits p k) =
           (if p = 0 then [] else ''.'' @ zfill p (str_nat (k mod 10 ^ p)))"
    using nd by (simp add: decimal_digits_def dropWhile_append2)
qed

lemma decimal_digits_chars:
  "c \<in> set (decimal_digits p k) \<Longrightarrow> is_digit c \<or> c = CHR ''.''"
  using str_nat_digits [of "k div 10 ^ p"] zfill_digits [OF str_nat_digits, of p "k mod 10 ^ p"]
  by (auto simp: decimal_digits_def list_all_iff split: if_splits)

lemma decimal_digits_no_e: "\<forall>c \<in> set (decimal_digits p k). c \<noteq> CHR ''e''"
  using decimal_digits_chars digit_not_special by blast

lemma div_mod_real: "real (k div 10 ^ p) + real (k mod 10 ^ p) / 10 ^ p = real k / 10 ^ p"
proof -
  define q :: nat where "q = 10 ^ p"
  have q: "real q = 10 ^ p" "0 < real q"
    by (simp_all add: q_def)
  have "real k = real (k div q * q + k mod q)"
    by simp
  also have "\<dots> = real (k div q) * real q + real (k mod q)"
    by (simp only: of_nat_add of_nat_mult)
  finally have "real k / real q = real (k div q) + real (k mod q) / real q"
    using q(2) by (simp add: field_simps)
  then show ?thesis
    by (simp add: q(1) q_def)
qed

lemma parse_unsigned_decimal:
  assumes "ex = [] \<or> hd ex = CHR ''e''"
  shows "parse_unsigned (decimal_digits p k @ ex) =
     (case (if ex = [] then Some 0 else parse_int (tl ex)) of
        None \<Rightarrow> None
      | Some e \<Rightarrow> Some (real k / 10 ^ p * 10 powi e))"
proof -
  have m: "takeWhile (\<lambda>c. c \<noteq> CHR ''e'') (decimal_digits p k @ ex) = decimal_digits p k"
    using assms decimal_digits_no_e [of p k]
    by (cases ex) (simp_all add: takeWhile_append2)
  have x: "dropWhile (\<lambda>c. c \<noteq> CHR ''e'') (decimal_digits p k @ ex) = ex"
    using assms decimal_digits_no_e [of p k]
    by (cases ex) simp_all
  have lt: "k mod 10 ^ p < 10 ^ p \<or> p = 0"
    by simp
  note sp = decimal_digits_split [OF lt]
  have ip: "parse_nat (takeWhile (\<lambda>c. c \<noteq> CHR ''.'') (decimal_digits p k)) = Some (k div 10 ^ p)"
    by (simp add: sp parse_nat_str_nat)
  have fp: "(if dropWhile (\<lambda>c. c \<noteq> CHR ''.'') (decimal_digits p k) = [] then Some 0
             else parse_nat (tl (dropWhile (\<lambda>c. c \<noteq> CHR ''.'') (decimal_digits p k))))
            = Some (k mod 10 ^ p)"
    by (simp add: sp parse_nat_zfill)
  have len: "length (dropWhile (\<lambda>c. c \<noteq> CHR ''.'') (decimal_digits p k)) - 1 = p"
  proof (cases "p = 0")
    case True
    have "length (dropWhile (\<lambda>c. c \<noteq> CHR ''.'') (decimal_digits p k)) = length ([] :: string)"
      using True by (subst sp(2)) simp
    then show ?thesis
      unfolding True by (simp only: list.size diff_0_eq_0)
  next
    case False
    then have "length (zfill p (str_nat (k mod 10 ^ p))) = p"
      by (intro length_zfill_str_nat) simp_all
    with False show ?thesis by (simp add: sp)
  qed
  show ?thesis
    unfolding parse_unsigned_def Let_def m x ip fp len
    by (simp add: div_mod_real split: option.splits)
qed

lemma decimal_digits_hd: "\<exists>c r. decimal_digits p k = c # r \<and> is_digit c"
proof -
  obtain c r where cr: "str_nat (k div 10 ^ p) = c # r"
    using str_nat_nonempty [of "k div 10 ^ p"] by (cases "str_nat (k div 10 ^ p)") auto
  with str_nat_digits [of "k div 10 ^ p"] have "is_digit c"
    by simp
  with cr show ?thesis
    by (simp add: decimal_digits_def)
qed

lemma parse_float_signed:
  assumes "parse_unsigned (decimal_digits p k @ ex) = Some u"
  shows "parse_float ((if neg then ''-'' else []) @ decimal_digits p k @ ex) =
     Some ((if neg then - 1 else 1) * u)"
proof -
  obtain c r where cr: "decimal_digits p k = c # r" and d: "is_digit c"
    using decimal_digits_hd by blast
  have "c \<noteq> CHR ''-''"
    using d digit_not_special by blast
  then have "parse_float (decimal_digits p k @ ex) = Some u"
    using assms by (simp add: parse_float_def cr)
  moreover have "parse_float (''-'' @ decimal_digits p k @ ex) = Some (- u)"
    using assms by (simp add: parse_float_def)
  ultimately show ?thesis
    by simp
qed

lemma parse_float_fmt_fixed:
  "parse_float (fmt_fixed p v) =
     Some ((if v < 0 then - 1 else 1) * (real (nat (round_half_even (\<bar>v\<bar> * 10 ^ p))) / 10 ^ p))"
proof -
  define k where "k = nat (round_half_even (\<bar>v\<bar> * 10 ^ p))"
  have "parse_unsigned (decimal_digits p k @ []) = Some (real k / 10 ^ p)"
    using parse_unsigned_decimal [of "[]" p k] by simp
  from parse_float_signed [OF this, of "v < 0"] show ?thesis
    by (simp add: fmt_fixed_def k_def)
qed

lemma parse_int_exponent:
  "parse_int ((if e < 0 then ''-'' else ''+'') @ zfill 2 (str_nat (nat \<bar>e\<bar>))) = Some e"
  by (simp add: parse_int_def parse_nat_zfill)

lemma parse_float_fmt_sci:
  "parse_float (fmt_sci p v) =
     Some ((if v < 0 then - 1 else 1) * (real (fst (sci_parts p \<bar>v\<bar>)) / 10 ^ p
        * 10 powi snd (sci_parts p \<bar>v\<bar>)))"
proof -
  obtain m e where me: "sci_parts p \<bar>v\<bar> = (m, e)"
    by (cases "sci_parts p \<bar>v\<bar>")
  define ex where "ex = ''e'' @ (if e < 0 then ''-'' else ''+'') @ zfill 2 (str_nat (nat \<bar>e\<bar>))"
  have tl: "tl ex = (if e < 0 then ''-'' else ''+'') @ zfill 2 (str_nat (nat \<bar>e\<bar>))"
    and hd: "hd ex = CHR ''e''" and ne: "ex \<noteq> []"
    by (simp_all add: ex_def)
  have "parse_unsigned (decimal_digits p m @ ex) = Some (real m / 10 ^ p * 10 powi e)"
    using parse_unsigned_decimal [of ex p m] parse_int_exponent [of e]
    by (simp add: tl hd ne)
  from parse_float_signed [OF this, of "v < 0"] have
    "parse_float ((if v < 0 then ''-'' else []) @ decimal_digits p m @ ex) =
       Some ((if v < 0 then - 1 else 1) * (real m / 10 ^ p * 10 powi e))" .
  moreover have "fmt_sci p v = (if v < 0 then ''-'' else []) @ decimal_digits p m @ ex"
    unfolding fmt_sci_def me ex_def by simp
  ultimately show ?thesis
    by (simp only: me fst_conv snd_conv)
qed

lemma round_half_even_error: "\<bar>real_of_int (round_half_even v) - v\<bar> \<le> 1 / 2"
  unfolding round_half_even_def Let_def by (auto; linarith)

lemma round_half_even_nonneg: "0 \<le> v \<Longrightarrow> 0 \<le> round_half_even v"
  unfolding round_half_even_def Let_def by (auto; linarith)

lemma nat_round_error:
  assumes "0 \<le> v"
  shows "\<bar>real (nat (round_half_even v)) - v\<bar> \<le> 1 / 2"
  using round_half_even_error [of v] round_half_even_nonneg [OF assms] by simp

lemma fixed_error:
  "\<bar>(if v < 0 then - 1 else 1) * (real (nat (round_half_even (\<bar>v\<bar> * 10 ^ p))) / 10 ^ p) - v\<bar>
     \<le> 1 / (2 * 10 ^ p)"
proof -
  define k where "k = real (nat (round_half_even (\<bar>v\<bar> * 10 ^ p)))"
  have "\<bar>k - \<bar>v\<bar> * 10 ^ p\<bar> \<le> 1 / 2"
    unfolding k_def by (rule nat_round_error) simp
  then have "\<bar>k - \<bar>v\<bar> * 10 ^ p\<bar> / 10 ^ p \<le> (1 / 2) / 10 ^ p"
    by (rule divide_right_mono) simp
  moreover have "\<bar>k - \<bar>v\<bar> * 10 ^ p\<bar> / 10 ^ p = \<bar>k / 10 ^ p - \<bar>v\<bar>\<bar>"
  proof -
    have "\<bar>k - \<bar>v\<bar> * 10 ^ p\<bar> / 10 ^ p = \<bar>(k - \<bar>v\<bar> * 10 ^ p) / 10 ^ p\<bar>"
      by simp
    also have "(k - \<bar>v\<bar> * 10 ^ p) / 10 ^ p = k / 10 ^ p - \<bar>v\<bar>"
      by (simp add: field_simps)
    finally show ?thesis .
  qed
  ultimately have "\<bar>k / 10 ^ p - \<bar>v\<bar>\<bar> \<le> 1 / (2 * 10 ^ p)"
    by simp
  then show ?thesis
    unfolding k_def [symmetric] by (cases "v < 0") (simp_all add: abs_if split: if_splits)
qed

lemma decade_up_bounds:
  "1 \<le> v \<Longrightarrow> 0 \<le> decade_up v \<and> 10 powi decade_up v \<le> v \<and> v < 10 powi (decade_up v + 1)"
proof (induction v rule: decade_up.induct)
  case (1 v)
  show ?case
  proof (cases "10 \<le> v")
    case True
    then have "1 \<le> v / 10" by simp
    from 1(1) [OF True this] True show ?thesis
      by (subst (1 2 3) decade_up.simps) (simp add: power_int_add field_simps)
  next
    case False
    with 1(2) show ?thesis
      by (subst (1 2 3) decade_up.simps) simp
  qed
qed

lemma decade_down_bounds:
  "0 < v \<Longrightarrow> v < 1 \<Longrightarrow> 10 powi decade_down v \<le> v \<and> v < 10 powi (decade_down v + 1)"
proof (induction v rule: decade_down.induct)
  case (1 v)
  show ?case
  proof (cases "v * 10 < 1")
    case True
    from 1(1) [OF _ _ True] 1(2,3) have "10 powi decade_down (v * 10) \<le> v * 10 \<and> v * 10 < 10 powi (decade_down (v * 10) + 1)"
      by simp
    with 1(2,3) show ?thesis
      by (subst (1 2) decade_down.simps) (simp add: power_int_add power_int_diff field_simps)
  next
    case False
    have "decade_down (v * 10) = 0"
      using False by (subst decade_down.simps) simp
    with 1(2,3) False show ?thesis
      by (subst (1 2) decade_down.simps) (simp add: power_int_minus field_simps)
  qed
qed

lemma decade_bounds:
  "0 < a \<Longrightarrow> 10 powi decade a \<le> a \<and> a < 10 powi (decade a + 1)"
  using decade_up_bounds [of a] decade_down_bounds [of a]
  by (cases "1 \<le> a") (simp_all add: decade_def)

lemma sci_parts_value:
  assumes "0 < a"
  shows "real (fst (sci_parts p a)) / 10 ^ p * 10 powi snd (sci_parts p a) =
     real (nat (round_half_even (a * 10 powi (int p - decade a)))) * 10 powi (decade a - int p)"
proof -
  define e where "e = decade a"
  define m where "m = nat (round_half_even (a * 10 powi (int p - e)))"
  have pw: "(10::real) ^ p = 10 powi (int p)"
    by simp
  show ?thesis
  proof (cases "m = 10 ^ (p + 1)")
    case True
    have "sci_parts p a = (10 ^ p, e + 1)"
      using assms True by (simp add: sci_parts_def Let_def e_def m_def)
    moreover have "real m * 10 powi (e - int p) = 10 powi (e + 1)"
      unfolding True by (simp add: power_int_add power_int_diff)
    ultimately show ?thesis
      unfolding e_def [symmetric] m_def [symmetric] by simp
  next
    case False
    have "sci_parts p a = (m, e)"
      using assms False by (simp add: sci_parts_def Let_def e_def m_def)
    then show ?thesis
      unfolding e_def [symmetric] m_def [symmetric] by (simp add: power_int_diff)
  qed
qed

lemma sci_error_abs:
  assumes "0 < a"
  shows "\<bar>real (fst (sci_parts p a)) / 10 ^ p * 10 powi snd (sci_parts p a) - a\<bar>
     \<le> 10 powi (decade a - int p) / 2"
proof -
  define s where "s = (10::real) powi (decade a - int p)"
  have s: "0 < s"
    by (simp add: s_def)
  have inv: "10 powi (int p - decade a) = 1 / s"
    unfolding s_def by (simp add: power_int_diff field_simps)
  define m where "m = real (nat (round_half_even (a * 10 powi (int p - decade a))))"
  have "0 \<le> a / s"
    using assms s by simp
  then have "\<bar>m - a / s\<bar> \<le> 1 / 2"
    using nat_round_error [of "a / s"]
    unfolding m_def inv by simp
  then have "\<bar>m - a / s\<bar> * s \<le> (1 / 2) * s"
    using s by (intro mult_right_mono) simp_all
  moreover have "\<bar>m - a / s\<bar> * s = \<bar>m * s - a\<bar>"
  proof -
    have "\<bar>m - a / s\<bar> * s = \<bar>(m - a / s) * s\<bar>"
      using s by (simp add: abs_mult)
    also have "(m - a / s) * s = m * s - a"
      using s by (simp add: field_simps)
    finally show ?thesis .
  qed
  ultimately show ?thesis
    unfolding sci_parts_value [OF assms] m_def [symmetric] s_def [symmetric] by simp
qed

lemma sci_parts_zero: "sci_parts p 0 = (0, 0)"
  by (simp add: sci_parts_def)

lemma sci_error:
  "\<bar>sci_value p v - v\<bar> \<le> \<bar>v\<bar> / (2 * 10 ^ p)"
proof (cases "v = 0")
  case True
  then show ?thesis
    by (simp add: sci_value_def sci_parts_zero)
next
  case False
  then have a: "0 < \<bar>v\<bar>"
    by simp
  define u where "u = real (fst (sci_parts p \<bar>v\<bar>)) / 10 ^ p * 10 powi snd (sci_parts p \<bar>v\<bar>)"
  have "\<bar>u - \<bar>v\<bar>\<bar> \<le> 10 powi (decade \<bar>v\<bar> - int p) / 2"
    unfolding u_def by (rule sci_error_abs [OF a])
  also have "(10::real) powi (decade \<bar>v\<bar> - int p) / 2 = 10 powi decade \<bar>v\<bar> / (2 * 10 ^ p)"
    by (simp add: power_int_diff)
  also have "\<dots> \<le> \<bar>v\<bar> / (2 * 10 ^ p)"
    using decade_bounds [OF a] by (intro divide_right_mono) simp_all
  finally have "\<bar>u - \<bar>v\<bar>\<bar> \<le> \<bar>v\<bar> / (2 * 10 ^ p)" .
  then show ?thesis
    unfolding sci_value_def u_def [symmetric] by (cases "v < 0") (simp_all add: abs_if split: if_splits)
qed

lemma split_on_none: "c \<notin> set w \<Longrightarrow> split_on c w = [w]"
  by (induction w) auto

lemma split_on_append: "c \<notin> set w \<Longrightarrow> split_on c (w @ c # s) = w # split_on c s"
  by (induction w) auto

lemma split_join_commas:
  "fs \<noteq> [] \<Longrightarrow> \<forall>f \<in> set fs. clean f \<Longrightarrow> split_on (CHR '','') (join_commas fs) = fs"
proof (induction fs rule: join_commas.induct)
  case 1
  then show ?case by simp
next
  case (2 f)
  then show ?case by (simp add: split_on_none clean_def)
next
  case (3 f g fs)
  then show ?case by (simp add: split_on_append clean_def)
qed

lemma join_commas_no_newline:
  "\<forall>f \<in> set fs. clean f \<Longrightarrow> CHR 0x0A \<notin> set (join_commas fs)"
  by (induction fs rule: join_commas.induct) (auto simp: clean_def)

lemma split_lines_concat:
  "\<forall>l \<in> set ls. CHR 0x0A \<notin> set l \<Longrightarrow>
     split_on (CHR 0x0A) (concat (map (\<lambda>l. l @ newline) ls)) = ls @ [[]]"
  by (induction ls) (simp_all add: newline_def split_on_append)

lemma text_lines_concat:
  assumes "\<forall>l \<in> set ls. CHR 0x0A \<notin> set l"
  shows "text_lines (concat (map (\<lambda>l. l @ newline) ls)) = ls"
  unfolding text_lines_def split_lines_concat [OF assms] by simp

lemma csv_rows_concat:
  assumes "\<forall>fs \<in> set rows. fs \<noteq> [] \<and> (\<forall>f \<in> set fs. clean f)"
  shows "csv_rows (concat (map (\<lambda>fs. join_commas fs @ newline) rows)) = rows"
proof -
  have "concat (map (\<lambda>fs. join_commas fs @ newline) rows)
      = concat (map (\<lambda>l. l @ newline) (map join_commas rows))"
    by (simp add: comp_def)
  moreover have "\<forall>l \<in> set (map join_commas rows). CHR 0x0A \<notin> set l"
    using assms join_commas_no_newline by auto
  ultimately have "text_lines (concat (map (\<lambda>fs. join_commas fs @ newline) rows)) = map join_commas rows"
    by (simp only: text_lines_concat)
  moreover have "map (split_on (CHR '','')) (map join_commas rows) = rows"
    using assms by (simp add: split_join_commas map_idI)
  ultimately show ?thesis
    by (simp only: csv_rows_def)
qed

lemma clean_digits: "list_all is_digit s \<Longrightarrow> clean s"
  using digit_not_special by (auto simp: clean_def list_all_iff)

lemma clean_append [simp]: "clean (a @ b) \<longleftrightarrow> clean a \<and> clean b"
  by (auto simp: clean_def)

lemma clean_Cons [simp]: "clean (c # s) \<longleftrightarrow> c \<noteq> CHR '','' \<and> c \<noteq> CHR 0x0A \<and> clean s"
  by (auto simp: clean_def)

lemma clean_Nil [simp]: "clean []"
  by (simp add: clean_def)

lemma clean_str_nat: "clean (str_nat n)"
  by (simp add: clean_digits str_nat_digits)

lemma clean_zfill: "clean (zfill p (str_nat n))"
  by (simp add: clean_digits zfill_digits str_nat_digits)

lemma clean_str_int: "clean (str_int i)"
  by (simp add: str_int_def clean_str_nat)

lemma clean_decimal_digits: "clean (decimal_digits p k)"
  by (simp add: decimal_digits_def clean_str_nat clean_zfill)

lemma clean_fmt_fixed: "clean (fmt_fixed p v)"
  by (simp add: fmt_fixed_def clean_decimal_digits)

lemma clean_fmt_sci: "clean (fmt_sci p v)"
  by (cases "sci_parts p \<bar>v\<bar>") (simp add: fmt_sci_def clean_decimal_digits clean_zfill)

lemma clean_fmt_f: "clean (fmt_f p v)"
  by (cases v) (simp_all add: clean_fmt_fixed)

lemma clean_fmt_e: "clean (fmt_e p v)"
  by (cases v) (simp_all add: clean_fmt_sci)

lemma raw_line_fields: "raw_line r = join_commas (raw_fields r) @ newline"
  by (cases r) (simp add: raw_line_def raw_fields_def)

lemma params_line_fields: "params_line r = join_commas (params_fields r) @ newline"
  by (cases r) (simp add: params_line_def params_fields_def)

lemma raw_csv_rows_text:
  "raw_csv reg = concat (map (\<lambda>fs. join_commas fs @ newline)
     ([''System'', ''Charge'', ''Salt_Weight_Fraction'', ''Conductivity_S_cm'']
      # map raw_fields (registry_points reg)))"
proof -
  have "concat (map (\<lambda>(system, d). concat (map raw_line (raw_rows system d))) reg)
      = concat (map raw_line (registry_points reg))"
    unfolding registry_points_def by (induction reg) auto
  moreover have "raw_line = (\<lambda>r. join_commas (raw_fields r) @ newline)"
    by (rule ext) (rule raw_line_fields)
  ultimately show ?thesis
    by (simp add: raw_csv_def raw_header_def comp_def)
qed

lemma params_csv_rows_text:
  "params_csv tab = concat (map (\<lambda>fs. join_commas fs @ newline)
     ([''System'', ''Charge'', ''A'', ''B'', ''VPI'', ''RMSE_S_cm'', ''R2'']
      # map params_fields tab))"
proof -
  have "params_line = (\<lambda>r. join_commas (params_fields r) @ newline)"
    by (rule ext) (rule params_line_fields)
  then show ?thesis
    by (simp add: params_csv_def params_header_def comp_def)
qed

lemma registry_points_system:
  "r \<in> set (registry_points reg) \<Longrightarrow> fst r \<in> fst ` set reg"
  by (force simp: registry_points_def raw_rows_def)

lemma csv_rows_raw_csv:
  assumes "\<forall>sd \<in> set reg. clean (fst sd)"
  shows "csv_rows (raw_csv reg) =
     [''System'', ''Charge'', ''Salt_Weight_Fraction'', ''Conductivity_S_cm'']
     # map raw_fields (registry_points reg)"
  unfolding raw_csv_rows_text
proof (rule csv_rows_concat, rule ballI)
  fix fs
  assume "fs \<in> set ([''System'', ''Charge'', ''Salt_Weight_Fraction'', ''Conductivity_S_cm'']
     # map raw_fields (registry_points reg))"
  then consider "fs = [''System'', ''Charge'', ''Salt_Weight_Fraction'', ''Conductivity_S_cm'']"
    | r where "r \<in> set (registry_points reg)" "fs = raw_fields r"
    by auto
  then show "fs \<noteq> [] \<and> (\<forall>f \<in> set fs. clean f)"
  proof cases
    case 1
    then show ?thesis by simp
  next
    case 2
    from registry_points_system [OF 2(1)] assms have "clean (fst r)"
      by auto
    then show ?thesis
      unfolding 2(2) by (cases r) (simp add: raw_fields_def clean_str_int clean_fmt_fixed clean_fmt_sci)
  qed
qed

lemma csv_rows_params_csv:
  assumes "\<forall>r \<in> set tab. clean (row_system r)"
  shows "csv_rows (params_csv tab) =
     [''System'', ''Charge'', ''A'', ''B'', ''VPI'', ''RMSE_S_cm'', ''R2''] # map params_fields tab"
  unfolding params_csv_rows_text
proof (rule csv_rows_concat, rule ballI)
  fix fs
  assume "fs \<in> set ([''System'', ''Charge'', ''A'', ''B'', ''VPI'', ''RMSE_S_cm'', ''R2'']
     # map params_fields tab)"
  then consider "fs = [''System'', ''Charge'', ''A'', ''B'', ''VPI'', ''RMSE_S_cm'', ''R2'']"
    | r where "r \<in> set tab" "fs = params_fields r"
    by auto
  then show "fs \<noteq> [] \<and> (\<forall>f \<in> set fs. clean f)"
  proof cases
    case 1
    then show ?thesis by simp
  next
    case 2
    from 2(1) assms have "clean (row_system r)"
      by auto
    then show ?thesis
      unfolding 2(2)
      by (cases r) (simp add: params_fields_def row_system_def clean_str_int clean_fmt_fixed
          clean_fmt_f clean_fmt_e)
  qed
qed

section \<open>Rows, tables and files of a run\<close>

lemma fit_result_row:
  assumes "ds_fit (snd sd)" and "fit_ok L sd"
  shows "\<exists>A B rmse r2. the_row L sd = (fst sd, ds_charge (snd sd), A, B, np_div B A, rmse, r2)
     \<and> curve_fit L (\<lambda>x A B. percolation_model_fixed_t_arr x A B t_default)
          (ds_x (snd sd)) (ds_sigma (snd sd)) p0 bounds maxfev = Inr (A, B)"
proof -
  from assms obtain row where r: "fit_result L (fst sd) (snd sd) = Inr row"
    by (cases "fit_result L (fst sd) (snd sd)") (auto simp: fit_ok_def)
  from fit_result_Inr [OF r] show ?thesis
    by (simp add: the_row_def r)
qed

lemma table_systems:
  assumes "\<forall>sd \<in> set reg. fit_ok L sd"
  shows "map row_system (map (the_row L) (fitted reg)) = map fst (fitted reg)"
  using assms by (simp add: fitted_def the_row_system)

lemma distinct_fitted: "distinct (map fst reg) \<Longrightarrow> distinct (map fst (fitted reg))"
  unfolding fitted_def by (rule distinct_map_filter)

lemma one_row_per_system:
  assumes "distinct (map fst reg)" and "\<forall>sd \<in> set reg. fit_ok L sd"
    and "(system, d) \<in> set reg"
  shows "length (filter (\<lambda>r. row_system r = system) (map (the_row L) (fitted reg))) =
     (if ds_fit d then 1 else 0)"
proof -
  let ?tab = "map (the_row L) (fitted reg)"
  have "length (filter (\<lambda>r. row_system r = system) ?tab)
      = length (filter (\<lambda>s. s = system) (map row_system ?tab))"
    by (simp add: filter_map comp_def)
  also have "\<dots> = length (filter (\<lambda>s. s = system) (map fst (fitted reg)))"
    by (simp only: table_systems [OF assms(2)])
  also have "\<dots> = card ({s. s = system} \<inter> set (map fst (fitted reg)))"
    using distinct_fitted [OF assms(1)] by (rule distinct_length_filter)
  also have "\<dots> = (if ds_fit d then 1 else 0)"
  proof (cases "ds_fit d")
    case True
    with assms(3) have "system \<in> set (map fst (fitted reg))"
      by (force simp: fitted_def)
    then have "{s. s = system} \<inter> set (map fst (fitted reg)) = {system}"
      by auto
    with True show ?thesis by simp
  next
    case False
    have "system \<notin> set (map fst (fitted reg))"
    proof
      assume "system \<in> set (map fst (fitted reg))"
      then obtain d' where d': "(system, d') \<in> set reg" "ds_fit d'"
        by (auto simp: fitted_def)
      from assms(1) assms(3) d'(1) have "d' = d"
        by (meson eq_key_imp_eq_value)
      with d'(2) False show False by simp
    qed
    then have "{s. s = system} \<inter> set (map fst (fitted reg)) = {}"
      by auto
    with False show ?thesis by simp
  qed
  finally show ?thesis .
qed

lemma fit_ok_const_libs: "fit_ok (const_libs ab) sd"
  by (cases ab) (simp add: fit_ok_def fit_result_def const_libs_def)

lemma distinct_data_registry: "distinct (map fst data_registry)"
  by (simp add: data_registry_def)

lemma fit_step_rows:
  "set (fit_table st) \<subseteq> fit_rows L \<Longrightarrow>
     set (fit_table (final_state (fit_step L sd st))) \<subseteq> fit_rows L"
  by (cases sd; cases "fit_result L (fst sd) (snd sd)")
     (auto simp: fit_step_def final_state_def fit_rows_def Let_def)

lemma fit_loop_rows:
  "set (fit_table st) \<subseteq> fit_rows L \<Longrightarrow>
     set (fit_table (final_state (fit_loop L reg st))) \<subseteq> fit_rows L"
proof (induction reg arbitrary: st)
  case Nil
  then show ?case by (simp add: final_state_def)
next
  case (Cons sd reg)
  show ?case
  proof (cases "fit_step L sd st")
    case (Inl a)
    with fit_step_rows [OF Cons.prems, of sd] show ?thesis
      by simp
  next
    case (Inr st1)
    with fit_step_rows [OF Cons.prems, of sd] have "set (fit_table st1) \<subseteq> fit_rows L"
      by (simp add: final_state_def)
    from Cons.IH [OF this] Inr show ?thesis
      by simp
  qed
qed

lemma plot_step_table: "fit_table (final_state (plot_step sd st)) = fit_table st"
  by (cases sd) (auto simp: plot_step_def final_state_def Let_def split: option.splits)

lemma plot_loop_table: "fit_table (final_state (plot_loop reg st)) = fit_table st"
proof (induction reg arbitrary: st)
  case Nil
  then show ?case by (simp add: final_state_def)
next
  case (Cons sd reg)
  show ?case
  proof (cases "plot_step sd st")
    case (Inl a)
    with plot_step_table [of sd st] show ?thesis by simp
  next
    case (Inr st1)
    with plot_step_table [of sd st] Cons.IH [of st1] show ?thesis
      by (simp add: final_state_def)
  qed
qed

lemma main_rows: "set (fit_table (final_state (main L reg))) \<subseteq> fit_rows L"
proof (cases "fit_loop L reg start_state")
  case (Inl a)
  with fit_loop_rows [of start_state L reg] show ?thesis
    by (simp add: main_def start_state_def initial_state_def)
next
  case (Inr st1)
  with fit_loop_rows [of start_state L reg] have st1: "set (fit_table st1) \<subseteq> fit_rows L"
    by (simp add: final_state_def start_state_def initial_state_def)
  let ?st2 = "st1\<lparr>console := console st1 @ [replicate 110 (CHR ''='')]\<rparr>"
  have "fit_table (final_state (main L reg)) = fit_table (final_state (plot_loop reg ?st2))"
    using Inr by (cases "plot_loop reg ?st2") (simp_all add: main_def Let_def final_state_def)
  also have "\<dots> = fit_table st1"
    by (simp add: plot_loop_table)
  finally show ?thesis
    using st1 by simp
qed

lemma main_const_libs_data_registry:
  "main (const_libs ab) data_registry = Inr (final_state (main (const_libs ab) data_registry))"
proof -
  have "\<forall>sd \<in> set data_registry. fit_ok (const_libs ab) sd \<and> keys_ok sd"
    by (simp add: fit_ok_const_libs) (simp add: data_registry_def keys_ok_def markers_def colors_def)
  with main_Inr_iff [of "const_libs ab" data_registry] obtain st where
    "main (const_libs ab) data_registry = Inr st"
    by blast
  then show ?thesis
    by (simp add: final_state_def)
qed

lemma fit_table_main:
  assumes "main L reg = Inr st"
  shows "fit_table st = map (the_row L) (fitted reg)"
proof -
  from assms main_Inr_iff [of L reg] have ok: "\<forall>sd \<in> set reg. fit_ok L sd" "\<forall>sd \<in> set reg. keys_ok sd"
    by blast+
  from main_ok [OF ok] assms show ?thesis
    by auto
qed

lemma curve_fit_fails:
  assumes "ds_fit d"
    and "curve_fit L (\<lambda>x A B. percolation_model_fixed_t_arr x A B t_default)
           (ds_x d) (ds_sigma d) p0 bounds maxfev = Inl e"
  shows "\<not> fit_ok L (system, d)" and "projl (fit_result L system d) = e"
  using assms by (simp_all add: fit_ok_def fit_result_def)

lemma main_Inr_state_a:
  assumes "main L reg = Inr st"
  shows "st =
    \<lparr>fit_table = map (the_row L) (fitted reg),
     raw_data_table = registry_points reg,
     console = console start_state @ map (table_line L) reg @ [replicate 110 (CHR ''='')]
       @ closing_lines,
     figure = concat (map (artists_of (map (the_row L) (fitted reg))) reg),
     files = [fig_file \<mapsto> Image (concat (map (artists_of (map (the_row L) (fitted reg))) reg)),
              raw_file \<mapsto> Text (raw_csv reg),
              params_file \<mapsto> Text (params_csv (map (the_row L) (fitted reg)))]\<rparr>"
proof -
  from assms main_Inr_iff [of L reg] have ok: "\<forall>sd \<in> set reg. fit_ok L sd"
    and keys: "\<forall>sd \<in> set reg. keys_ok sd"
    by blast+
  from main_ok [OF ok keys] assms show ?thesis
    by (simp only: sum.inject)
qed

lemma file_names_distinct:
  "fig_file \<noteq> raw_file" "fig_file \<noteq> params_file" "raw_file \<noteq> params_file"
  by (simp_all add: fig_file_def raw_file_def params_file_def)

lemma main_Inr_state:
  assumes "main L reg = Inr st"
  shows "\<forall>sd \<in> set reg. fit_ok L sd" and "\<forall>sd \<in> set reg. keys_ok sd"
    and "fit_table st = map (the_row L) (fitted reg)"
    and "raw_data_table st = registry_points reg"
    and "console st = console start_state @ map (table_line L) reg
           @ [replicate 110 (CHR ''='')] @ closing_lines"
    and "figure st = concat (map (artists_of (map (the_row L) (fitted reg))) reg)"
    and "files st fig_file = Some (Image (figure st))"
    and "files st raw_file = Some (Text (raw_csv reg))"
    and "files st params_file = Some (Text (params_csv (fit_table st)))"
proof -
  from assms main_Inr_iff [of L reg] show "\<forall>sd \<in> set reg. fit_ok L sd"
    and "\<forall>sd \<in> set reg. keys_ok sd"
    by blast+
  note st = main_Inr_state_a [OF assms]
  show "fit_table st = map (the_row L) (fitted reg)"
    by (subst st) (simp only: state.simps)
  show "raw_data_table st = registry_points reg"
    by (subst st) (simp only: state.simps)
  show "console st = console start_state @ map (table_line L) reg
           @ [replicate 110 (CHR ''='')] @ closing_lines"
    by (subst st) (simp only: state.simps)
  show "figure st = concat (map (artists_of (map (the_row L) (fitted reg))) reg)"
    by (subst st) (simp only: state.simps)
  show "files st fig_file = Some (Image (figure st))"
    by (subst (1 2) st)
      (simp only: state.simps fun_upd_apply file_names_distinct if_False if_True refl simp_thms)
  show "files st raw_file = Some (Text (raw_csv reg))"
    by (subst st)
      (simp only: state.simps fun_upd_apply file_names_distinct file_names_distinct [symmetric]
        if_False if_True refl simp_thms)
  show "files st params_file = Some (Text (params_csv (fit_table st)))"
    by (subst (1 2) st)
      (simp only: state.simps fun_upd_apply file_names_distinct file_names_distinct [symmetric]
        if_False if_True refl simp_thms)
qed

lemma fit_step_cong:
  assumes "ds_fit (snd sd) \<longrightarrow> fit_result L' (fst sd) (snd sd) = fit_result L (fst sd) (snd sd)"
  shows "fit_step L' sd st = fit_step L sd st"
  using assms by (cases sd; cases "ds_fit (snd sd)") (simp_all add: fit_step_def Let_def)

lemma fit_loop_cong:
  assumes "\<forall>sd \<in> set reg. ds_fit (snd sd) \<longrightarrow>
             fit_result L' (fst sd) (snd sd) = fit_result L (fst sd) (snd sd)"
  shows "fit_loop L' reg st = fit_loop L reg st"
  using assms
proof (induction reg arbitrary: st)
  case Nil
  then show ?case by simp
next
  case (Cons sd reg)
  then have "fit_step L' sd st = fit_step L sd st"
    by (intro fit_step_cong) simp
  with Cons show ?case
    by (simp split: sum.splits)
qed

lemma main_cong:
  assumes "\<forall>sd \<in> set reg. ds_fit (snd sd) \<longrightarrow>
             fit_result L' (fst sd) (snd sd) = fit_result L (fst sd) (snd sd)"
  shows "main L' reg = main L reg"
  by (simp add: main_def fit_loop_cong [OF assms])

lemma clean_table:
  assumes "\<forall>sd \<in> set reg. fit_ok L sd" and "\<forall>sd \<in> set reg. clean (fst sd)"
  shows "\<forall>r \<in> set (map (the_row L) (fitted reg)). clean (row_system r)"
proof
  fix r
  assume "r \<in> set (map (the_row L) (fitted reg))"
  then obtain sd where sd: "sd \<in> set reg" "ds_fit (snd sd)" "r = the_row L sd"
    unfolding fitted_def by auto
  from assms(1) sd(1) have "fit_ok L sd"
    by blast
  from the_row_system [OF sd(2) this] assms(2) sd(1) show "clean (row_system r)"
    unfolding sd(3) by simp
qed

lemma hd_params_fields: "hd (params_fields r) = row_system r"
  by (cases r) (simp add: params_fields_def row_system_def)

lemma hd_raw_fields: "hd (raw_fields r) = fst r"
  by (cases r) (simp add: raw_fields_def)

lemma point_in_registry:
  assumes "(system, d) \<in> set reg" and "(xi, si) \<in> set (zip (ds_x d) (ds_sigma d))"
  shows "(system, ds_charge d, xi, si) \<in> set (registry_points reg)"
proof -
  from assms(2) have "(system, ds_charge d, xi, si) \<in> set (raw_rows system d)"
    unfolding raw_rows_def by (auto intro!: image_eqI [where x = "(xi, si)"])
  with assms(1) show ?thesis
    unfolding registry_points_def by (auto intro!: bexI [where x = "(system, d)"])
qed

lemma digit_char_values:
  "digit_char 0 = CHR ''0''" "digit_char 1 = CHR ''1''" "digit_char 2 = CHR ''2''"
  "digit_char 3 = CHR ''3''" "digit_char 4 = CHR ''4''" "digit_char 5 = CHR ''5''"
  "digit_char 6 = CHR ''6''" "digit_char 7 = CHR ''7''" "digit_char 8 = CHR ''8''"
  "digit_char 9 = CHR ''9''" "digit_char (Suc 0) = CHR ''1''"
  by (simp_all add: digit_char_def char_of_def bit_Suc_0_iff)

text \<open>Rules that evaluate the formats at a numeral.\<close>

lemmas fmt_eval =
  fmt_fixed_def fmt_sci_def sci_parts_def decade_def decade_down.simps decade_up.simps
  round_half_even_def decimal_digits_def zfill_def str_int_def str_nat.simps digit_char_values
  Let_def power_int_minus

section \<open>The fitting loop and the plotter\<close>

text \<open>
  C10. After a fitting loop that raised nothing, over a registry with distinct names,
  \<^verbatim>\<open>fit_table\<close> has exactly one row of each fitted dataset's name; so the plotter's
  \<^verbatim>\<open>next\<close> over the rows of that name finds one, and the plotting loop never stops with
  \<^verbatim>\<open>StopIteration\<close>.
\<close>

theorem fitted_rows_found_by_plotter:
  assumes "distinct (map fst reg)" and "fit_loop L reg start_state = Inr st1"
  shows "(\<forall>(system, d) \<in> set reg. ds_fit d \<longrightarrow>
            length (filter (\<lambda>r. row_system r = system) (fit_table st1)) = 1
            \<and> find (\<lambda>r. row_system r = system) (fit_table st1) \<noteq> None)
       \<and> (\<forall>st'. plot_loop reg (st1\<lparr>console := console st1 @ [replicate 110 (CHR ''='')]\<rparr>)
                   \<noteq> Inl (StopIteration, st'))"
proof -
  from assms(2) have ok: "\<forall>sd \<in> set reg. fit_ok L sd"
    using fit_loop_Inr_iff [of L reg start_state] by blast
  from fit_loop_ok [OF ok, of start_state] assms(2) have st1: "st1 = after_fit L reg start_state"
    by simp
  have tab: "fit_table st1 = map (the_row L) (fitted reg)"
    by (simp add: st1 after_fit_def start_state_def initial_state_def)
  have one: "length (filter (\<lambda>r. row_system r = system) (fit_table st1)) = 1"
    if "(system, d) \<in> set reg" "ds_fit d" for system d
    using one_row_per_system [OF assms(1) ok that(1)] that(2) by (simp add: tab)
  have found: "find (\<lambda>r. row_system r = system) (fit_table st1) \<noteq> None"
    if "(system, d) \<in> set reg" "ds_fit d" for system d
    using find_the_row [of "(system, d)" reg L] that ok by (simp add: tab)
  have "plot_loop reg (st1\<lparr>console := console st1 @ [replicate 110 (CHR ''='')]\<rparr>)
      \<noteq> Inl (StopIteration, st')" for st'
  proof
    assume "plot_loop reg (st1\<lparr>console := console st1 @ [replicate 110 (CHR ''='')]\<rparr>)
      = Inl (StopIteration, st')"
    from plot_loop_StopIteration [OF this] obtain sd where
      "sd \<in> set reg" "ds_fit (snd sd)" "find (\<lambda>r. row_system r = fst sd) (fit_table st1) = None"
      by auto
    with found [of "fst sd" "snd sd"] show False by simp
  qed
  with one found show ?thesis by blast
qed

theorem fitted_rows_found_by_plotter_witness:
  "distinct (map fst data_registry)
   \<and> fit_loop (const_libs p0) data_registry start_state
       = Inr (after_fit (const_libs p0) data_registry start_state)
   \<and> (\<exists>d. (''ZnCl2 (Zn2+)'', d) \<in> set data_registry \<and> ds_fit d)
   \<and> length (filter (\<lambda>r. row_system r = ''ZnCl2 (Zn2+)'')
        (fit_table (after_fit (const_libs p0) data_registry start_state))) = 1
   \<and> plot_loop data_registry
        ((after_fit (const_libs p0) data_registry start_state)
           \<lparr>console := console (after_fit (const_libs p0) data_registry start_state)
              @ [replicate 110 (CHR ''='')]\<rparr>) \<noteq> Inl (StopIteration, start_state)"
proof -
  have run: "fit_loop (const_libs p0) data_registry start_state
       = Inr (after_fit (const_libs p0) data_registry start_state)"
    by (rule fit_loop_ok) (simp add: fit_ok_const_libs)
  obtain d where d: "(''ZnCl2 (Zn2+)'', d) \<in> set data_registry" "ds_fit d"
    by (simp add: data_registry_def)
  from fitted_rows_found_by_plotter [OF distinct_data_registry run] d
  show ?thesis
    using distinct_data_registry run by blast
qed

text \<open>
  C8. When \<^verbatim>\<open>curve_fit\<close> keeps to the bounds it is given, every row that reaches
  \<^verbatim>\<open>fit_table\<close>, in a run that completes or in one that stops, has \<open>A\<close> at or above
  \<open>1e-4\<close>: the divisor is not zero and the VPI is the finite quotient \<open>B / A\<close>, never
  the infinity or NaN of a division by zero.
\<close>

theorem vpi_division_is_safe:
  assumes "respects_bounds L"
  shows "\<forall>r \<in> set (fit_table (final_state (main L reg))).
           1 / 10 ^ 4 \<le> row_A r \<and> row_A r \<noteq> 0
           \<and> row_vpi r = np_div (row_B r) (row_A r)
           \<and> row_vpi r = Fin (row_B r / row_A r) \<and> np_isfinite (row_vpi r)"
proof
  fix r
  assume "r \<in> set (fit_table (final_state (main L reg)))"
  with main_rows obtain system d where "fit_result L system d = Inr r"
    unfolding fit_rows_def by blast
  from fit_result_Inr [OF this] obtain A B rmse r2 where
    r: "r = (system, ds_charge d, A, B, np_div B A, rmse, r2)"
    and cf: "curve_fit L (\<lambda>x A B. percolation_model_fixed_t_arr x A B t_default)
          (ds_x d) (ds_sigma d) p0 bounds maxfev = Inr (A, B)"
    by blast
  from assms cf have "fst (fst bounds) \<le> A"
    unfolding respects_bounds_def by blast
  then have A: "1 / 10 ^ 4 \<le> A"
    by (simp add: bounds_def)
  then have "A \<noteq> 0"
    by auto
  with A show "1 / 10 ^ 4 \<le> row_A r \<and> row_A r \<noteq> 0
           \<and> row_vpi r = np_div (row_B r) (row_A r)
           \<and> row_vpi r = Fin (row_B r / row_A r) \<and> np_isfinite (row_vpi r)"
    by (simp add: r row_A_def row_B_def row_vpi_def np_div_def)
qed

theorem vpi_division_is_safe_witness:
  "respects_bounds (const_libs p0)
   \<and> (''LiCl (Li+)'', 1, 0.05, 0.5, Fin 10, Fin 0, Fin 1)
       \<in> set (fit_table (final_state (main (const_libs p0) data_registry)))
   \<and> row_A (''LiCl (Li+)'', 1, 0.05, 0.5, Fin 10, Fin 0, Fin 1) \<noteq> 0
   \<and> row_vpi (''LiCl (Li+)'', 1, 0.05, 0.5, Fin 10, Fin 0, Fin 1)
       = Fin (row_B (''LiCl (Li+)'', 1, 0.05, 0.5, Fin 10, Fin 0, Fin 1)
              / row_A (''LiCl (Li+)'', 1, 0.05, 0.5, Fin 10, Fin 0, Fin 1))"
proof -
  have rb: "respects_bounds (const_libs p0)"
    by (simp add: respects_bounds_def const_libs_def p0_def bounds_def)
  have "fit_table (final_state (main (const_libs p0) data_registry))
      = map (the_row (const_libs p0)) (fitted data_registry)"
    by (rule fit_table_main) (rule main_const_libs_data_registry)
  also have "the_row (const_libs p0) = (\<lambda>sd. (fst sd, ds_charge (snd sd), 0.05, 0.5, Fin 10, Fin 0, Fin 1))"
    by (rule ext) (simp add: the_row_def fit_result_def const_libs_def p0_def np_div_def)
  finally have "(''LiCl (Li+)'', 1, 0.05, 0.5, Fin 10, Fin 0, Fin 1)
       \<in> set (fit_table (final_state (main (const_libs p0) data_registry)))"
    by (simp add: fitted_def data_registry_def)
  with vpi_division_is_safe [OF rb, of data_registry] rb show ?thesis
    by blast
qed

text \<open>
  C7. When \<^verbatim>\<open>curve_fit\<close> raises on a fitted dataset and the datasets before it passed, the
  run stops with that very error: only the datasets before it have rows, nothing is drawn,
  no file is written, and the datasets after it play no part in the outcome.
\<close>

theorem solver_failure_aborts_run:
  assumes "\<forall>sd \<in> set pre. fit_ok L sd" and "ds_fit d"
    and "curve_fit L (\<lambda>x A B. percolation_model_fixed_t_arr x A B t_default)
           (ds_x d) (ds_sigma d) p0 bounds maxfev = Inl e"
  shows "\<exists>st. main L (pre @ (system, d) # post) = Inl (e, st)
     \<and> files st = Map.empty \<and> figure st = []
     \<and> fit_table st = map (the_row L) (fitted pre)
     \<and> console st = console start_state @ map (table_line L) pre
     \<and> (\<forall>post'. main L (pre @ (system, d) # post') = Inl (e, st))"
proof -
  let ?st1 = "after_fit L pre start_state"
  let ?st = "?st1\<lparr>raw_data_table := raw_data_table ?st1 @ raw_rows system d\<rparr>"
  note bad = curve_fit_fails [OF assms(2,3), of system]
  have "fit_loop L (pre @ (system, d) # post') start_state = Inl (e, ?st)" for post'
    using fit_loop_fail [OF assms(1) bad(1), of post' start_state] bad(2) by simp
  then have "main L (pre @ (system, d) # post') = Inl (e, ?st)" for post'
    by (simp add: main_def)
  moreover have "files ?st = Map.empty" "figure ?st = []"
    "fit_table ?st = map (the_row L) (fitted pre)"
    "console ?st = console start_state @ map (table_line L) pre"
    by (simp_all add: after_fit_def start_state_def initial_state_def)
  ultimately show ?thesis
    by blast
qed

theorem solver_failure_aborts_run_witness:
  "list_all (fit_ok failing_libs) (take 2 data_registry)
   \<and> ds_fit (snd (data_registry ! 2))
   \<and> curve_fit failing_libs (\<lambda>x A B. percolation_model_fixed_t_arr x A B t_default)
        (ds_x (snd (data_registry ! 2))) (ds_sigma (snd (data_registry ! 2))) p0 bounds maxfev
       = Inl RuntimeError
   \<and> (\<exists>st. main failing_libs data_registry = Inl (RuntimeError, st)
          \<and> files st = Map.empty \<and> figure st = []
          \<and> map row_system (fit_table st) = [''LiCl (Li+)''])"
proof -
  have pre: "\<forall>sd \<in> set (take 2 data_registry). fit_ok failing_libs sd"
    by (simp add: data_registry_def fit_ok_def fit_result_def failing_libs_def p0_def)
  have fit: "ds_fit (snd (data_registry ! 2))"
    by (simp add: data_registry_def)
  have cf: "curve_fit failing_libs (\<lambda>x A B. percolation_model_fixed_t_arr x A B t_default)
        (ds_x (snd (data_registry ! 2))) (ds_sigma (snd (data_registry ! 2))) p0 bounds maxfev
       = Inl RuntimeError"
    by (simp add: data_registry_def failing_libs_def)
  have split: "data_registry
      = take 2 data_registry @ (fst (data_registry ! 2), snd (data_registry ! 2)) # drop 3 data_registry"
    by (simp add: data_registry_def)
  have rows: "map row_system (map (the_row failing_libs) (fitted (take 2 data_registry)))
      = [''LiCl (Li+)'']"
    unfolding table_systems [OF pre] by (simp add: fitted_def data_registry_def)
  from solver_failure_aborts_run [OF pre fit cf, of "fst (data_registry ! 2)" "drop 3 data_registry"]
  obtain st where "main failing_libs data_registry = Inl (RuntimeError, st)"
    "files st = Map.empty" "figure st = []"
    "fit_table st = map (the_row failing_libs) (fitted (take 2 data_registry))"
    unfolding split [symmetric] by blast
  with rows pre fit cf show ?thesis
    by (auto simp: list_all_iff)
qed

section \<open>The files of a run that completes\<close>

text \<open>
  C5. In a run that completes, over a registry with distinct names free of commas and
  newlines: every point of every dataset, fitted or not, is a row of the raw CSV; a
  dataset that is not fitted has no row in \<^verbatim>\<open>fit_table\<close> and none in the parameters CSV,
  and prints the placeholder line; a fitted dataset has exactly one row in each. Nothing
  is computed for a dataset that is not fitted: libraries that agree on the fitted
  datasets give the same run.
\<close>

theorem skipped_datasets_only_in_raw_csv:
  assumes "main L reg = Inr st" and "distinct (map fst reg)"
    and "\<forall>sd \<in> set reg. clean (fst sd)"
  shows "\<exists>raw par. files st raw_file = Some (Text raw) \<and> files st params_file = Some (Text par)
     \<and> (\<forall>(system, d) \<in> set reg.
           (\<forall>(xi, si) \<in> set (zip (ds_x d) (ds_sigma d)).
               [system, str_int (ds_charge d), fmt_fixed 2 xi, fmt_sci 3 si]
                 \<in> set (tl (csv_rows raw)))
           \<and> length (filter (\<lambda>row. hd row = system) (tl (csv_rows par)))
               = (if ds_fit d then 1 else 0)
           \<and> length (filter (\<lambda>r. row_system r = system) (fit_table st))
               = (if ds_fit d then 1 else 0)
           \<and> (\<not> ds_fit d \<longrightarrow> placeholder_line system \<in> set (console st)))
     \<and> (\<forall>L'. (\<forall>(system, d) \<in> set reg. ds_fit d \<longrightarrow>
                  fit_result L' system d = fit_result L system d)
               \<longrightarrow> main L' reg = Inr st)"
proof -
  note s = main_Inr_state [OF assms(1)]
  let ?tab = "map (the_row L) (fitted reg)"
  have par: "tl (csv_rows (params_csv ?tab)) = map params_fields ?tab"
    using csv_rows_params_csv [OF clean_table [OF s(1) assms(3)]] by simp
  have raw: "tl (csv_rows (raw_csv reg)) = map raw_fields (registry_points reg)"
    using csv_rows_raw_csv [OF assms(3)] by simp
  have one: "length (filter (\<lambda>r. row_system r = system) (fit_table st)) = (if ds_fit d then 1 else 0)"
    if "(system, d) \<in> set reg" for system d
    using one_row_per_system [OF assms(2) s(1) that] by (simp add: s(3))
  have one': "length (filter (\<lambda>row. hd row = system) (tl (csv_rows (params_csv (fit_table st)))))
      = (if ds_fit d then 1 else 0)" if "(system, d) \<in> set reg" for system d
  proof -
    have "filter (\<lambda>row. hd row = system) (map params_fields ?tab)
        = map params_fields (filter (\<lambda>r. row_system r = system) ?tab)"
      by (simp add: filter_map comp_def hd_params_fields)
    then have "length (filter (\<lambda>row. hd row = system) (map params_fields ?tab))
        = length (filter (\<lambda>r. row_system r = system) ?tab)"
      by (simp only: length_map)
    with one [OF that] show ?thesis
      unfolding s(3) par by (simp only:)
  qed
  have pts: "[system, str_int (ds_charge d), fmt_fixed 2 xi, fmt_sci 3 si]
      \<in> set (tl (csv_rows (raw_csv reg)))"
    if "(system, d) \<in> set reg" "(xi, si) \<in> set (zip (ds_x d) (ds_sigma d))" for system d xi si
  proof -
    have "raw_fields (system, ds_charge d, xi, si) \<in> raw_fields ` set (registry_points reg)"
      using point_in_registry [OF that] by (rule imageI)
    then show ?thesis
      by (simp add: raw raw_fields_def)
  qed
  have ph: "placeholder_line system \<in> set (console st)"
    if "(system, d) \<in> set reg" "\<not> ds_fit d" for system d
  proof -
    have "table_line L (system, d) \<in> table_line L ` set reg"
      using that(1) by (rule imageI)
    then show ?thesis
      using that(2) by (simp add: s(5) table_line_def)
  qed
  have indep: "main L' reg = Inr st"
    if "\<forall>(system, d) \<in> set reg. ds_fit d \<longrightarrow> fit_result L' system d = fit_result L system d"
    for L'
  proof -
    from that have "\<forall>sd \<in> set reg. ds_fit (snd sd) \<longrightarrow>
             fit_result L' (fst sd) (snd sd) = fit_result L (fst sd) (snd sd)"
      by auto
    from main_cong [OF this] assms(1) show ?thesis
      by simp
  qed
  have each: "\<forall>(system, d) \<in> set reg.
           (\<forall>(xi, si) \<in> set (zip (ds_x d) (ds_sigma d)).
               [system, str_int (ds_charge d), fmt_fixed 2 xi, fmt_sci 3 si]
                 \<in> set (tl (csv_rows (raw_csv reg))))
           \<and> length (filter (\<lambda>row. hd row = system) (tl (csv_rows (params_csv (fit_table st)))))
               = (if ds_fit d then 1 else 0)
           \<and> length (filter (\<lambda>r. row_system r = system) (fit_table st))
               = (if ds_fit d then 1 else 0)
           \<and> (\<not> ds_fit d \<longrightarrow> placeholder_line system \<in> set (console st))"
    using pts one one' ph by blast
  have all: "\<forall>L'. (\<forall>(system, d) \<in> set reg. ds_fit d \<longrightarrow>
                  fit_result L' system d = fit_result L system d)
               \<longrightarrow> main L' reg = Inr st"
    using indep by blast
  from s(8) s(9) each all show ?thesis
    by (intro exI [of _ "raw_csv reg"] exI [of _ "params_csv (fit_table st)"] conjI)
qed

theorem skipped_datasets_only_in_raw_csv_witness:
  "main (const_libs p0) data_registry = Inr (final_state (main (const_libs p0) data_registry))
   \<and> distinct (map fst data_registry)
   \<and> list_all (\<lambda>sd. clean (fst sd)) data_registry
   \<and> (\<exists>raw par.
         files (final_state (main (const_libs p0) data_registry)) raw_file = Some (Text raw)
         \<and> files (final_state (main (const_libs p0) data_registry)) params_file = Some (Text par)
         \<and> [''NaN3 (Na+)'', ''1'', ''0.05'', ''1.850e-07''] \<in> set (tl (csv_rows raw))
         \<and> length (filter (\<lambda>row. hd row = ''NaN3 (Na+)'') (tl (csv_rows par))) = 0
         \<and> length (filter (\<lambda>row. hd row = ''ZnCl2 (Zn2+)'') (tl (csv_rows par))) = 1)"
proof -
  let ?st = "final_state (main (const_libs p0) data_registry)"
  have cl: "\<forall>sd \<in> set data_registry. clean (fst sd)"
    by (simp add: data_registry_def clean_def)
  obtain d where d: "(''NaN3 (Na+)'', d) \<in> set data_registry" "\<not> ds_fit d"
    "ds_charge d = 1" "(0.05, 1.85 / 10 ^ 7) \<in> set (zip (ds_x d) (ds_sigma d))"
    by (simp add: data_registry_def)
  obtain d' where d': "(''ZnCl2 (Zn2+)'', d') \<in> set data_registry" "ds_fit d'"
    by (simp add: data_registry_def)
  have f: "str_int 1 = ''1''" "fmt_fixed 2 0.05 = ''0.05''"
    "fmt_sci 3 (1.85 / 10 ^ 7) = ''1.850e-07''"
    by (simp_all add: fmt_eval)
  from skipped_datasets_only_in_raw_csv
    [OF main_const_libs_data_registry distinct_data_registry cl, of p0]
  obtain raw par where rp: "files ?st raw_file = Some (Text raw)"
      "files ?st params_file = Some (Text par)"
    and each: "\<forall>(system, d) \<in> set data_registry.
           (\<forall>(xi, si) \<in> set (zip (ds_x d) (ds_sigma d)).
               [system, str_int (ds_charge d), fmt_fixed 2 xi, fmt_sci 3 si]
                 \<in> set (tl (csv_rows raw)))
           \<and> length (filter (\<lambda>row. hd row = system) (tl (csv_rows par)))
               = (if ds_fit d then 1 else 0)
           \<and> length (filter (\<lambda>r. row_system r = system) (fit_table ?st))
               = (if ds_fit d then 1 else 0)
           \<and> (\<not> ds_fit d \<longrightarrow> placeholder_line system \<in> set (console ?st))"
    by blast
  from each d(1,4) have "[''NaN3 (Na+)'', str_int (ds_charge d), fmt_fixed 2 0.05,
      fmt_sci 3 (1.85 / 10 ^ 7)] \<in> set (tl (csv_rows raw))"
    by blast
  then have "[''NaN3 (Na+)'', ''1'', ''0.05'', ''1.850e-07''] \<in> set (tl (csv_rows raw))"
    by (simp only: d(3) f)
  moreover from each d(1,2) have
    "length (filter (\<lambda>row. hd row = ''NaN3 (Na+)'') (tl (csv_rows par))) = 0"
    by fastforce
  moreover from each d' have
    "length (filter (\<lambda>row. hd row = ''ZnCl2 (Zn2+)'') (tl (csv_rows par))) = 1"
    by fastforce
  ultimately show ?thesis
    using rp main_const_libs_data_registry [of p0] distinct_data_registry cl
    by (auto simp: list_all_iff)
qed

section \<open>What the two CSV files hold\<close>

lemma keys_ok_clean: "keys_ok sd \<Longrightarrow> clean (fst sd)"
proof -
  assume "keys_ok sd"
  then have "map_of colors (fst sd) \<noteq> None"
    by (simp add: keys_ok_def)
  then have "fst sd \<in> fst ` set colors"
    by (simp add: map_of_eq_None_iff)
  then show "clean (fst sd)"
    by (auto simp: colors_def clean_def)
qed

lemma clean_names_of_run:
  assumes "main L reg = Inr st"
  shows "\<forall>sd \<in> set reg. clean (fst sd)"
  using main_Inr_state(2) [OF assms] keys_ok_clean by blast

lemma parse_int_str_int: "parse_int (str_int i) = Some i"
proof (cases "i < 0")
  case True
  then show ?thesis
    by (simp add: str_int_def parse_int_def parse_nat_str_nat)
next
  case False
  obtain c r where cr: "str_nat (nat i) = c # r"
    using str_nat_nonempty [of "nat i"] by (cases "str_nat (nat i)") auto
  with str_nat_digits [of "nat i"] have "is_digit c"
    by simp
  then have "c \<noteq> CHR ''-''" "c \<noteq> CHR ''+''"
    using digit_not_special by blast+
  moreover have "parse_nat (c # r) = Some (nat i)"
    using parse_nat_str_nat [of "nat i"] by (simp only: cr)
  ultimately show ?thesis
    using False by (simp add: str_int_def parse_int_def cr)
qed

lemma parse_float_fmt_sci_value: "parse_float (fmt_sci p v) = Some (sci_value p v)"
  by (simp only: parse_float_fmt_sci sci_value_def)

lemma parse_raw_fields:
  "\<exists>r'. parse_raw_row (raw_fields r) = Some r' \<and> close_row r' r"
proof -
  obtain s c x v where r: "r = (s, c, x, v)"
    by (cases r)
  define x' where "x' = (if x < 0 then - 1 else 1)
      * (real (nat (round_half_even (\<bar>x\<bar> * 10 ^ 2))) / 10 ^ 2)"
  have px: "parse_float (fmt_fixed 2 x) = Some x'"
    unfolding x'_def by (rule parse_float_fmt_fixed)
  have ex: "\<bar>x' - x\<bar> \<le> 0.005"
    using fixed_error [of x 2] unfolding x'_def by simp
  have ev: "\<bar>sci_value 3 v - v\<bar> \<le> 0.0005 * \<bar>v\<bar>"
    using sci_error [of 3 v] by simp
  have "parse_raw_row (raw_fields r) = Some (s, c, x', sci_value 3 v)"
    by (simp add: r raw_fields_def parse_raw_row_def parse_int_str_int px
        parse_float_fmt_sci_value)
  moreover have "close_row (s, c, x', sci_value 3 v) r"
    using ex ev by (simp add: r close_row_def)
  ultimately show ?thesis
    by blast
qed

lemma raw_rows_columns:
  assumes "length (ds_x d) = length (ds_sigma d)"
  shows "map (\<lambda>(s, c, x, v). x) (raw_rows system d) = ds_x d"
    and "map (\<lambda>(s, c, x, v). v) (raw_rows system d) = ds_sigma d"
    and "map (\<lambda>(s, c, x, v). (s, c)) (raw_rows system d)
           = replicate (length (ds_x d)) (system, ds_charge d)"
proof -
  have "map (\<lambda>(s, c, x, v). x) (raw_rows system d) = map fst (zip (ds_x d) (ds_sigma d))"
    by (simp add: raw_rows_def comp_def case_prod_unfold)
  with assms show "map (\<lambda>(s, c, x, v). x) (raw_rows system d) = ds_x d"
    by simp
  have "map (\<lambda>(s, c, x, v). v) (raw_rows system d) = map snd (zip (ds_x d) (ds_sigma d))"
    by (simp add: raw_rows_def comp_def case_prod_unfold)
  with assms show "map (\<lambda>(s, c, x, v). v) (raw_rows system d) = ds_sigma d"
    by simp
  have "map (\<lambda>(s, c, x, v). (s, c)) (raw_rows system d)
      = map (\<lambda>p. (system, ds_charge d)) (zip (ds_x d) (ds_sigma d))"
    by (simp add: raw_rows_def comp_def case_prod_unfold)
  with assms show "map (\<lambda>(s, c, x, v). (s, c)) (raw_rows system d)
           = replicate (length (ds_x d)) (system, ds_charge d)"
    by (simp add: map_replicate_const)
qed

lemmas parse_eval =
  parse_float_def parse_unsigned_def parse_int_def parse_nat_def digits_value_def is_digit_def
  Let_def

lemma first_point:
  "length (registry_points data_registry) = 21"
  "hd (registry_points data_registry) = (''LiCl (Li+)'', 1, 0.10, 4.98 / 10 ^ 7)"
  by (simp_all add: registry_points_def raw_rows_def data_registry_def)

lemma first_point_fields:
  "raw_fields (''LiCl (Li+)'', 1, 0.10, 4.98 / 10 ^ 7)
     = [''LiCl (Li+)'', ''1'', ''0.10'', ''4.980e-07'']"
proof -
  have "str_int 1 = ''1''" "fmt_fixed 2 0.10 = ''0.10''"
    "fmt_sci 3 (4.98 / 10 ^ 7) = ''4.980e-07''"
    by (simp_all add: fmt_eval)
  then show ?thesis
    by (simp only: raw_fields_def prod.case)
qed

lemma first_point_parsed:
  "parse_raw_row [''LiCl (Li+)'', ''1'', ''0.10'', ''4.980e-07'']
     = Some (''LiCl (Li+)'', 1, 0.10, 4.98 / 10 ^ 7)"
  by (simp add: parse_raw_row_def parse_eval)

lemma the_row_vpi:
  assumes "ds_fit (snd sd)" and "fit_ok L sd"
  shows "row_vpi (the_row L sd) = np_div (row_B (the_row L sd)) (row_A (the_row L sd))"
proof -
  from fit_result_row [OF assms] obtain A B rmse r2 where
    "the_row L sd = (fst sd, ds_charge (snd sd), A, B, np_div B A, rmse, r2)"
    by blast
  then show ?thesis
    by (simp add: row_vpi_def row_A_def row_B_def)
qed

lemma params_fields_nth:
  "params_fields r ! 2 = fmt_fixed 4 (row_A r)" "params_fields r ! 3 = fmt_fixed 4 (row_B r)"
  "params_fields r ! 4 = fmt_f 2 (row_vpi r)"
  by (cases r; simp add: params_fields_def row_A_def row_B_def row_vpi_def numeral_2_eq_2
      numeral_3_eq_3 eval_nat_numeral)+

lemma fixed_read_back:
  "\<exists>v'. parse_float (fmt_fixed p v) = Some v' \<and> \<bar>v' - v\<bar> \<le> 1 / (2 * 10 ^ p)"
  using parse_float_fmt_fixed [of p v] fixed_error [of v p] by simp

lemma main_const_libs_first:
  "main (const_libs ab) (take 1 data_registry)
     = Inr (final_state (main (const_libs ab) (take 1 data_registry)))"
proof -
  have "\<forall>sd \<in> set (take 1 data_registry). fit_ok (const_libs ab) sd \<and> keys_ok sd"
    by (simp add: fit_ok_const_libs) (simp add: data_registry_def keys_ok_def markers_def colors_def)
  with main_Inr_iff [of "const_libs ab" "take 1 data_registry"] obtain st where
    "main (const_libs ab) (take 1 data_registry) = Inr st"
    by blast
  then show ?thesis
    by (simp add: final_state_def)
qed

lemma the_row_const_libs:
  "the_row (const_libs (a, b)) sd = (fst sd, ds_charge (snd sd), a, b, np_div b a, Fin 0, Fin 1)"
  by (simp add: the_row_def fit_result_def const_libs_def)

lemma sample_row_text:
  "params_line (''LiCl (Li+)'', 1, 0.3, 1, np_div 1 0.3, Fin 0, Fin 1)
     = ''LiCl (Li+),1,0.3000,1.0000,3.33,0.000e+00,1.000'' @ newline"
proof -
  have "str_int 1 = ''1''" "fmt_fixed 4 0.3 = ''0.3000''" "fmt_fixed 4 1 = ''1.0000''"
    "fmt_fixed 2 (1 / 0.3) = ''3.33''" "fmt_sci 3 0 = ''0.000e+00''" "fmt_fixed 3 1 = ''1.000''"
    by (simp_all add: fmt_eval) (simp_all add: numeral_2_eq_2 numeral_3_eq_3)
  then show ?thesis
    by (simp add: params_line_def np_div_def)
qed

text \<open>
  C6. In a run that completes, the raw CSV starts with the header line and has one row
  for each point of each dataset, in the order of the registry: the name, the charge,
  the fraction with 2 decimals and the conductivity in scientific notation with 3
  decimals. Read back, a row gives the name and the charge of the dataset, its fraction
  within half a unit of the second decimal, and its conductivity within half a unit of
  the third decimal of the mantissa. The rows of a dataset are its two arrays, element
  by element.
\<close>

theorem raw_csv_round_trip:
  assumes "main L reg = Inr st"
  shows "\<exists>raw. files st raw_file = Some (Text raw)
     \<and> hd (csv_rows raw) = [''System'', ''Charge'', ''Salt_Weight_Fraction'', ''Conductivity_S_cm'']
     \<and> tl (csv_rows raw) = map raw_fields (registry_points reg)
     \<and> list_all2 (\<lambda>fs r. \<exists>r'. parse_raw_row fs = Some r' \<and> close_row r' r)
          (tl (csv_rows raw)) (registry_points reg)
     \<and> (\<forall>(system, d) \<in> set reg.
           map (\<lambda>(s, c, x, v). x) (raw_rows system d) = ds_x d
           \<and> map (\<lambda>(s, c, x, v). v) (raw_rows system d) = ds_sigma d
           \<and> map (\<lambda>(s, c, x, v). (s, c)) (raw_rows system d)
               = replicate (length (ds_x d)) (system, ds_charge d))"
proof -
  note s = main_Inr_state [OF assms]
  have rows: "csv_rows (raw_csv reg) =
     [''System'', ''Charge'', ''Salt_Weight_Fraction'', ''Conductivity_S_cm'']
     # map raw_fields (registry_points reg)"
    by (rule csv_rows_raw_csv [OF clean_names_of_run [OF assms]])
  have rt: "list_all2 (\<lambda>fs r. \<exists>r'. parse_raw_row fs = Some r' \<and> close_row r' r)
          (map raw_fields (registry_points reg)) (registry_points reg)"
    unfolding list_all2_map1 by (rule list_all2_refl) (rule parse_raw_fields)
  have cols: "\<forall>(system, d) \<in> set reg.
           map (\<lambda>(s, c, x, v). x) (raw_rows system d) = ds_x d
           \<and> map (\<lambda>(s, c, x, v). v) (raw_rows system d) = ds_sigma d
           \<and> map (\<lambda>(s, c, x, v). (s, c)) (raw_rows system d)
               = replicate (length (ds_x d)) (system, ds_charge d)"
  proof (intro ballI, clarify)
    fix system d
    assume "(system, d) \<in> set reg"
    with s(2) have "length (ds_x d) = length (ds_sigma d)"
      by (auto simp: keys_ok_def)
    then show "map (\<lambda>(s, c, x, v). x) (raw_rows system d) = ds_x d
           \<and> map (\<lambda>(s, c, x, v). v) (raw_rows system d) = ds_sigma d
           \<and> map (\<lambda>(s, c, x, v). (s, c)) (raw_rows system d)
               = replicate (length (ds_x d)) (system, ds_charge d)"
      by (intro conjI raw_rows_columns)
  qed
  show ?thesis
  proof (intro exI [of _ "raw_csv reg"] conjI)
    show "files st raw_file = Some (Text (raw_csv reg))"
      by (rule s(8))
    show "hd (csv_rows (raw_csv reg))
        = [''System'', ''Charge'', ''Salt_Weight_Fraction'', ''Conductivity_S_cm'']"
      unfolding rows by (simp only: list.sel)
    show "tl (csv_rows (raw_csv reg)) = map raw_fields (registry_points reg)"
      unfolding rows by (simp only: list.sel)
    show "list_all2 (\<lambda>fs r. \<exists>r'. parse_raw_row fs = Some r' \<and> close_row r' r)
          (tl (csv_rows (raw_csv reg))) (registry_points reg)"
      unfolding rows list.sel by (rule rt)
    show "\<forall>(system, d) \<in> set reg.
           map (\<lambda>(s, c, x, v). x) (raw_rows system d) = ds_x d
           \<and> map (\<lambda>(s, c, x, v). v) (raw_rows system d) = ds_sigma d
           \<and> map (\<lambda>(s, c, x, v). (s, c)) (raw_rows system d)
               = replicate (length (ds_x d)) (system, ds_charge d)"
      by (rule cols)
  qed
qed

theorem raw_csv_round_trip_witness:
  "main (const_libs p0) data_registry = Inr (final_state (main (const_libs p0) data_registry))
   \<and> (\<exists>raw. files (final_state (main (const_libs p0) data_registry)) raw_file = Some (Text raw)
          \<and> hd (csv_rows raw)
              = [''System'', ''Charge'', ''Salt_Weight_Fraction'', ''Conductivity_S_cm'']
          \<and> length (tl (csv_rows raw)) = 21
          \<and> hd (tl (csv_rows raw)) = [''LiCl (Li+)'', ''1'', ''0.10'', ''4.980e-07'']
          \<and> parse_raw_row [''LiCl (Li+)'', ''1'', ''0.10'', ''4.980e-07'']
              = Some (''LiCl (Li+)'', 1, 0.10, 4.98 / 10 ^ 7))"
proof -
  let ?st = "final_state (main (const_libs p0) data_registry)"
  from raw_csv_round_trip [OF main_const_libs_data_registry, of p0]
  obtain raw where raw: "files ?st raw_file = Some (Text raw)"
    "hd (csv_rows raw) = [''System'', ''Charge'', ''Salt_Weight_Fraction'', ''Conductivity_S_cm'']"
    "tl (csv_rows raw) = map raw_fields (registry_points data_registry)"
    by blast
  have len: "length (tl (csv_rows raw)) = 21"
    by (simp only: raw(3) length_map first_point(1))
  have "registry_points data_registry \<noteq> []"
    using first_point(1) by auto
  then have "hd (map raw_fields (registry_points data_registry))
      = raw_fields (hd (registry_points data_registry))"
    by (rule hd_map)
  then have first: "hd (tl (csv_rows raw)) = [''LiCl (Li+)'', ''1'', ''0.10'', ''4.980e-07'']"
    by (simp only: raw(3) first_point(2) first_point_fields)
  from raw(1,2) len first first_point_parsed have
    "\<exists>raw. files ?st raw_file = Some (Text raw)
          \<and> hd (csv_rows raw)
              = [''System'', ''Charge'', ''Salt_Weight_Fraction'', ''Conductivity_S_cm'']
          \<and> length (tl (csv_rows raw)) = 21
          \<and> hd (tl (csv_rows raw)) = [''LiCl (Li+)'', ''1'', ''0.10'', ''4.980e-07'']
          \<and> parse_raw_row [''LiCl (Li+)'', ''1'', ''0.10'', ''4.980e-07'']
              = Some (''LiCl (Li+)'', 1, 0.10, 4.98 / 10 ^ 7)"
    by blast
  with main_const_libs_data_registry [of p0] show ?thesis
    by (intro conjI)
qed

text \<open>
  C4, as the code has it. The file holds rounded values: with \<open>A = 0.3\<close> and \<open>B = 1\<close>
  the row reads \<open>0.3000\<close>, \<open>1.0000\<close> and \<open>3.33\<close>, and \<open>3.33\<close> is not the quotient of the two
  numbers written before it.
\<close>

theorem vpi_rounded_in_csv_counterexample:
  "files (final_state (main (const_libs (0.3, 1)) (take 1 data_registry))) params_file
     = Some (Text (''System,Charge,A,B,VPI,RMSE_S_cm,R2'' @ newline
          @ ''LiCl (Li+),1,0.3000,1.0000,3.33,0.000e+00,1.000'' @ newline))
   \<and> map parse_float [''0.3000'', ''1.0000'', ''3.33''] = [Some 0.3, Some 1, Some 3.33]
   \<and> (3.33 :: real) \<noteq> 1 / 0.3"
proof -
  let ?st = "final_state (main (const_libs (0.3, 1)) (take 1 data_registry))"
  note s = main_Inr_state [OF main_const_libs_first [of "(0.3, 1)"]]
  have "fitted (take 1 data_registry) = take 1 data_registry"
    by (simp add: fitted_def data_registry_def)
  then have "fit_table ?st = [the_row (const_libs (0.3, 1)) (hd data_registry)]"
    unfolding s(3) by (simp add: data_registry_def)
  also have "\<dots> = [(''LiCl (Li+)'', 1, 0.3, 1, np_div 1 0.3, Fin 0, Fin 1)]"
    unfolding the_row_const_libs by (simp add: data_registry_def)
  finally have tab: "fit_table ?st = [(''LiCl (Li+)'', 1, 0.3, 1, np_div 1 0.3, Fin 0, Fin 1)]" .
  have "params_csv (fit_table ?st)
      = ''System,Charge,A,B,VPI,RMSE_S_cm,R2'' @ newline
          @ ''LiCl (Li+),1,0.3000,1.0000,3.33,0.000e+00,1.000'' @ newline"
    unfolding tab params_csv_def params_header_def by (simp add: sample_row_text)
  with s(9) have "files ?st params_file
     = Some (Text (''System,Charge,A,B,VPI,RMSE_S_cm,R2'' @ newline
          @ ''LiCl (Li+),1,0.3000,1.0000,3.33,0.000e+00,1.000'' @ newline))"
    by (simp only:)
  moreover have "map parse_float [''0.3000'', ''1.0000'', ''3.33''] = [Some 0.3, Some 1, Some 3.33]"
    by (simp add: parse_eval)
  moreover have "(3.33 :: real) \<noteq> 1 / 0.3"
    by simp
  ultimately show ?thesis
    by (intro conjI)
qed

text \<open>
  C4, amended. In a run that completes, the VPI of every row of \<^verbatim>\<open>fit_table\<close> is the
  quotient of the \<open>B\<close> and the \<open>A\<close> of that row. The parameters CSV has one row for each of
  them, with \<open>A\<close> and \<open>B\<close> at 4 decimals and that VPI at 2 decimals: the VPI read from
  the file is within \<open>0.005\<close> of the VPI of the row.
\<close>

theorem vpi_quotient_rounded_in_csv:
  assumes "main L reg = Inr st"
  shows "\<exists>par. files st params_file = Some (Text par)
     \<and> tl (csv_rows par) = map params_fields (fit_table st)
     \<and> (\<forall>r \<in> set (fit_table st).
           row_vpi r = np_div (row_B r) (row_A r)
           \<and> params_fields r ! 2 = fmt_fixed 4 (row_A r)
           \<and> params_fields r ! 3 = fmt_fixed 4 (row_B r)
           \<and> params_fields r ! 4 = fmt_f 2 (row_vpi r)
           \<and> (\<forall>v. row_vpi r = Fin v \<longrightarrow>
                 (\<exists>v'. parse_float (params_fields r ! 4) = Some v' \<and> \<bar>v' - v\<bar> \<le> 0.005)))"
proof -
  note s = main_Inr_state [OF assms]
  let ?tab = "map (the_row L) (fitted reg)"
  have "\<forall>r \<in> set ?tab. clean (row_system r)"
    by (rule clean_table [OF s(1) clean_names_of_run [OF assms]])
  from csv_rows_params_csv [OF this]
  have rows: "tl (csv_rows (params_csv (fit_table st))) = map params_fields (fit_table st)"
    unfolding s(3) by simp
  have each: "row_vpi r = np_div (row_B r) (row_A r)
           \<and> params_fields r ! 2 = fmt_fixed 4 (row_A r)
           \<and> params_fields r ! 3 = fmt_fixed 4 (row_B r)
           \<and> params_fields r ! 4 = fmt_f 2 (row_vpi r)
           \<and> (\<forall>v. row_vpi r = Fin v \<longrightarrow>
                 (\<exists>v'. parse_float (params_fields r ! 4) = Some v' \<and> \<bar>v' - v\<bar> \<le> 0.005))"
    if "r \<in> set (fit_table st)" for r
  proof -
    from that obtain sd where sd: "sd \<in> set reg" "ds_fit (snd sd)" "r = the_row L sd"
      unfolding s(3) fitted_def by auto
    from s(1) sd(1) have ok: "fit_ok L sd"
      by blast
    have q: "row_vpi r = np_div (row_B r) (row_A r)"
      unfolding sd(3) by (rule the_row_vpi [OF sd(2) ok])
    have "\<exists>v'. parse_float (params_fields r ! 4) = Some v' \<and> \<bar>v' - v\<bar> \<le> 0.005"
      if "row_vpi r = Fin v" for v
      using fixed_read_back [of 2 v] by (simp add: params_fields_nth that)
    with q show ?thesis
      by (simp add: params_fields_nth)
  qed
  from each have all: "\<forall>r \<in> set (fit_table st).
           row_vpi r = np_div (row_B r) (row_A r)
           \<and> params_fields r ! 2 = fmt_fixed 4 (row_A r)
           \<and> params_fields r ! 3 = fmt_fixed 4 (row_B r)
           \<and> params_fields r ! 4 = fmt_f 2 (row_vpi r)
           \<and> (\<forall>v. row_vpi r = Fin v \<longrightarrow>
                 (\<exists>v'. parse_float (params_fields r ! 4) = Some v' \<and> \<bar>v' - v\<bar> \<le> 0.005))"
    by blast
  from s(9) rows all show ?thesis
    by (intro exI [of _ "params_csv (fit_table st)"] conjI)
qed

theorem vpi_quotient_rounded_in_csv_witness:
  "main (const_libs p0) data_registry = Inr (final_state (main (const_libs p0) data_registry))
   \<and> (\<exists>par. files (final_state (main (const_libs p0) data_registry)) params_file
                  = Some (Text par)
          \<and> length (tl (csv_rows par)) = 4)
   \<and> (''LiCl (Li+)'', 1, 0.05, 0.5, Fin 10, Fin 0, Fin 1)
        \<in> set (fit_table (final_state (main (const_libs p0) data_registry)))
   \<and> row_vpi (''LiCl (Li+)'', 1, 0.05, 0.5, Fin 10, Fin 0, Fin 1)
        = np_div (row_B (''LiCl (Li+)'', 1, 0.05, 0.5, Fin 10, Fin 0, Fin 1))
            (row_A (''LiCl (Li+)'', 1, 0.05, 0.5, Fin 10, Fin 0, Fin 1))
   \<and> (\<exists>v'. parse_float (params_fields (''LiCl (Li+)'', 1, 0.05, 0.5, Fin 10, Fin 0, Fin 1) ! 4)
               = Some v' \<and> \<bar>v' - 10\<bar> \<le> 0.005)"
proof -
  let ?st = "final_state (main (const_libs p0) data_registry)"
  let ?r = "(''LiCl (Li+)'', 1 :: int, 0.05 :: real, 0.5 :: real, Fin 10, Fin 0, Fin 1)"
  have tab: "fit_table ?st = map (the_row (const_libs p0)) (fitted data_registry)"
    by (rule fit_table_main) (rule main_const_libs_data_registry)
  have len: "length (fit_table ?st) = 4"
    unfolding tab by (simp add: fitted_def data_registry_def)
  have "the_row (const_libs p0) = (\<lambda>sd. (fst sd, ds_charge (snd sd), 0.05, 0.5, Fin 10, Fin 0, Fin 1))"
    by (rule ext) (simp add: p0_def the_row_const_libs np_div_def)
  then have mem: "?r \<in> set (fit_table ?st)"
    unfolding tab by (simp add: fitted_def data_registry_def)
  have vpi: "row_vpi ?r = Fin 10"
    by (simp add: row_vpi_def)
  from vpi_quotient_rounded_in_csv [OF main_const_libs_data_registry, of p0]
  obtain par where par: "files ?st params_file = Some (Text par)"
    "tl (csv_rows par) = map params_fields (fit_table ?st)"
    and each: "\<forall>r \<in> set (fit_table ?st).
           row_vpi r = np_div (row_B r) (row_A r)
           \<and> params_fields r ! 2 = fmt_fixed 4 (row_A r)
           \<and> params_fields r ! 3 = fmt_fixed 4 (row_B r)
           \<and> params_fields r ! 4 = fmt_f 2 (row_vpi r)
           \<and> (\<forall>v. row_vpi r = Fin v \<longrightarrow>
                 (\<exists>v'. parse_float (params_fields r ! 4) = Some v' \<and> \<bar>v' - v\<bar> \<le> 0.005))"
    by blast
  have "length (tl (csv_rows par)) = 4"
    by (simp only: par(2) length_map len)
  with par(1) have p: "\<exists>par. files ?st params_file = Some (Text par)
      \<and> length (tl (csv_rows par)) = 4"
    by blast
  from each mem have q: "row_vpi ?r = np_div (row_B ?r) (row_A ?r)"
    by blast
  from each mem vpi have "\<exists>v'. parse_float (params_fields ?r ! 4) = Some v' \<and> \<bar>v' - 10\<bar> \<le> 0.005"
    by blast
  with p q mem main_const_libs_data_registry [of p0] show ?thesis
    by (intro conjI)
qed

section \<open>The order of the registry\<close>

text \<open>
  A run reads the registry from its first dataset to its last. The lemmas below compare the
  run on a registry with the run on a rearrangement of it, and give the state in which a run
  stops when the solver fails on a dataset.
\<close>

lemma mset_concat_map:
  "mset (concat (map g xs)) = sum_mset (image_mset (\<lambda>x. mset (g x)) (mset xs))"
  by (induction xs) simp_all

lemma perm_concat_map:
  assumes "mset xs = mset ys" and "\<forall>x \<in> set xs. g x = h x"
  shows "mset (concat (map g xs)) = mset (concat (map h ys))"
proof -
  have "image_mset (\<lambda>x. mset (g x)) (mset xs) = image_mset (\<lambda>x. mset (h x)) (mset xs)"
    using assms(2) by (intro image_mset_cong) simp
  then show ?thesis
    by (simp only: mset_concat_map assms(1))
qed

lemma perm_main_completes:
  assumes "mset reg' = mset reg" and "main L reg = Inr st"
  shows "\<exists>st'. main L reg' = Inr st'"
proof -
  from assms(1) have "set reg' = set reg"
    by (rule mset_eq_setD)
  with assms(2) main_Inr_iff [of L reg] main_Inr_iff [of L reg'] show ?thesis
    by blast
qed

lemma perm_fitted: "mset reg' = mset reg \<Longrightarrow> mset (fitted reg') = mset (fitted reg)"
  by (simp add: fitted_def)

lemma perm_registry_points:
  "mset reg' = mset reg \<Longrightarrow> mset (registry_points reg') = mset (registry_points reg)"
  unfolding registry_points_def by (rule perm_concat_map) simp_all

lemma find_distinct:
  "distinct (map f xs) \<Longrightarrow> x \<in> set xs \<Longrightarrow> find (\<lambda>y. f y = f x) xs = Some x"
  by (induction xs) (auto simp: image_iff)

lemma find_row_of:
  assumes "distinct (map fst reg)" and "\<forall>sd \<in> set reg. fit_ok L sd"
    and "sd \<in> set reg" and "ds_fit (snd sd)"
  shows "find (\<lambda>r. row_system r = fst sd) (map (the_row L) (fitted reg)) = Some (the_row L sd)"
proof -
  let ?tab = "map (the_row L) (fitted reg)"
  have "distinct (map row_system ?tab)"
    unfolding table_systems [OF assms(2)] by (rule distinct_fitted [OF assms(1)])
  moreover have "the_row L sd \<in> set ?tab"
    using assms(3,4) by (simp add: fitted_def)
  ultimately have "find (\<lambda>r. row_system r = row_system (the_row L sd)) ?tab = Some (the_row L sd)"
    by (rule find_distinct)
  moreover from assms(2,3) have "fit_ok L sd"
    by blast
  ultimately show ?thesis
    by (simp only: the_row_system [OF assms(4)])
qed

lemma perm_artists:
  assumes "mset reg' = mset reg" and "distinct (map fst reg)"
    and "\<forall>sd \<in> set reg. fit_ok L sd"
  shows "mset (concat (map (artists_of (map (the_row L) (fitted reg'))) reg'))
       = mset (concat (map (artists_of (map (the_row L) (fitted reg))) reg))"
proof (rule perm_concat_map [OF assms(1)], rule ballI)
  fix sd
  assume "sd \<in> set reg'"
  from assms(1) have sets: "set reg' = set reg"
    by (rule mset_eq_setD)
  from assms(1) have "mset (map fst reg') = mset (map fst reg)"
    by simp
  with assms(2) have d': "distinct (map fst reg')"
    by (metis mset_eq_imp_distinct_iff)
  from assms(3) sets have ok': "\<forall>sd \<in> set reg'. fit_ok L sd"
    by simp
  from \<open>sd \<in> set reg'\<close> sets have mem: "sd \<in> set reg"
    by simp
  show "artists_of (map (the_row L) (fitted reg')) sd
      = artists_of (map (the_row L) (fitted reg)) sd"
  proof (cases "ds_fit (snd sd)")
    case True
    from find_row_of [OF d' ok' \<open>sd \<in> set reg'\<close> True]
      find_row_of [OF assms(2,3) mem True]
    show ?thesis
      by (simp add: artists_of_def)
  next
    case False
    then show ?thesis
      by (simp add: artists_of_def)
  qed
qed

lemma perm_run:
  assumes "mset reg' = mset reg" and "distinct (map fst reg)"
    and "main L reg = Inr st" and "main L reg' = Inr st'"
  shows "mset (fit_table st') = mset (fit_table st)"
    and "mset (raw_data_table st') = mset (raw_data_table st)"
    and "mset (console st') = mset (console st)"
    and "mset (figure st') = mset (figure st)"
proof -
  note s = main_Inr_state [OF assms(3)] and s' = main_Inr_state [OF assms(4)]
  show "mset (fit_table st') = mset (fit_table st)"
    unfolding s(3) s'(3) using perm_fitted [OF assms(1)] by simp
  show "mset (raw_data_table st') = mset (raw_data_table st)"
    unfolding s(4) s'(4) by (rule perm_registry_points [OF assms(1)])
  show "mset (console st') = mset (console st)"
    unfolding s(5) s'(5) using assms(1) by simp
  show "mset (figure st') = mset (figure st)"
    unfolding s(6) s'(6) by (rule perm_artists [OF assms(1,2) s(1)])
qed

lemma csv_rows_of_run:
  assumes "main L reg = Inr st"
  shows "csv_rows (raw_csv reg)
      = [''System'', ''Charge'', ''Salt_Weight_Fraction'', ''Conductivity_S_cm'']
        # map raw_fields (registry_points reg)"
    and "csv_rows (params_csv (fit_table st))
      = [''System'', ''Charge'', ''A'', ''B'', ''VPI'', ''RMSE_S_cm'', ''R2'']
        # map params_fields (fit_table st)"
proof -
  note s = main_Inr_state [OF assms]
  note cl = clean_names_of_run [OF assms]
  show "csv_rows (raw_csv reg)
      = [''System'', ''Charge'', ''Salt_Weight_Fraction'', ''Conductivity_S_cm'']
        # map raw_fields (registry_points reg)"
    by (rule csv_rows_raw_csv [OF cl])
  show "csv_rows (params_csv (fit_table st))
      = [''System'', ''Charge'', ''A'', ''B'', ''VPI'', ''RMSE_S_cm'', ''R2'']
        # map params_fields (fit_table st)"
    unfolding s(3) by (rule csv_rows_params_csv [OF clean_table [OF s(1) cl]])
qed

lemma perm_csv:
  assumes "mset reg' = mset reg" and "main L reg = Inr st" and "main L reg' = Inr st'"
  shows "mset (csv_rows (raw_csv reg')) = mset (csv_rows (raw_csv reg))"
    and "mset (csv_rows (params_csv (fit_table st'))) = mset (csv_rows (params_csv (fit_table st)))"
proof -
  note s = main_Inr_state [OF assms(2)] and s' = main_Inr_state [OF assms(3)]
  show "mset (csv_rows (raw_csv reg')) = mset (csv_rows (raw_csv reg))"
    unfolding csv_rows_of_run(1) [OF assms(2)] csv_rows_of_run(1) [OF assms(3)]
    using perm_registry_points [OF assms(1)] by simp
  have "mset (fit_table st') = mset (fit_table st)"
    unfolding s(3) s'(3) using perm_fitted [OF assms(1)] by simp
  then show "mset (csv_rows (params_csv (fit_table st')))
      = mset (csv_rows (params_csv (fit_table st)))"
    unfolding csv_rows_of_run(2) [OF assms(2)] csv_rows_of_run(2) [OF assms(3)] by simp
qed

lemma systems_of_points:
  assumes "\<forall>sd \<in> set reg. length (ds_x (snd sd)) = length (ds_sigma (snd sd))"
  shows "map fst (registry_points reg)
      = concat (map (\<lambda>(system, d). replicate (length (ds_x d)) system) reg)"
  using assms
proof (induction reg)
  case Nil
  then show ?case by (simp add: registry_points_def)
next
  case (Cons sd reg)
  obtain system d where sd: "sd = (system, d)"
    by (cases sd)
  from Cons.prems have len: "length (ds_x d) = length (ds_sigma d)"
    by (simp add: sd)
  have "map fst (raw_rows system d) = replicate (length (ds_x d)) system"
    using len by (simp add: raw_rows_def comp_def case_prod_unfold map_replicate_const)
  moreover have "registry_points (sd # reg) = raw_rows system d @ registry_points reg"
    by (simp add: registry_points_def sd)
  ultimately show ?case
    using Cons by (simp add: sd)
qed

lemma table_line_prefix:
  assumes "fit_ok L sd"
  shows "prefix (ljust 18 (fst sd) @ sep) (table_line L sd)"
proof (cases "ds_fit (snd sd)")
  case True
  from fit_result_row [OF True assms] obtain A B rmse r2 where
    "the_row L sd = (fst sd, ds_charge (snd sd), A, B, np_div B A, rmse, r2)"
    by blast
  with True show ?thesis
    by (simp add: table_line_def result_line_def)
next
  case False
  then show ?thesis
    by (simp add: table_line_def placeholder_line_def)
qed

lemma main_abort:
  assumes "\<forall>sd' \<in> set pre. fit_ok L sd'" and "\<not> fit_ok L sd"
  shows "fit_table (final_state (main L (pre @ sd # post))) = map (the_row L) (fitted pre)"
    and "console (final_state (main L (pre @ sd # post)))
           = console start_state @ map (table_line L) pre"
proof -
  have "main L (pre @ sd # post)
      = Inl (projl (fit_result L (fst sd) (snd sd)),
          (after_fit L pre start_state)\<lparr>raw_data_table :=
             raw_data_table (after_fit L pre start_state) @ raw_rows (fst sd) (snd sd)\<rparr>)"
    using fit_loop_fail [OF assms, of post start_state] by (simp add: main_def)
  then show "fit_table (final_state (main L (pre @ sd # post))) = map (the_row L) (fitted pre)"
    and "console (final_state (main L (pre @ sd # post)))
           = console start_state @ map (table_line L) pre"
    by (simp_all add: final_state_def after_fit_def start_state_def initial_state_def)
qed

lemma failing_libs_cases:
  "fit_ok failing_libs (data_registry ! 0)" "\<not> fit_ok failing_libs (data_registry ! 2)"
  by (simp_all add: data_registry_def fit_ok_def fit_result_def failing_libs_def p0_def)

text \<open>
  C9, as the code has it. What a run does depends on the order of the registry beyond the
  order of its rows: the loop stops at the first dataset on which \<^verbatim>\<open>curve_fit\<close> raises. With a
  solver that fails on \<open>NH4I\<close>, the registry of \<open>LiCl\<close> then \<open>NH4I\<close> prints the row of \<open>LiCl\<close>
  and holds it in \<^verbatim>\<open>fit_table\<close> before the run stops, and the registry of \<open>NH4I\<close> then
  \<open>LiCl\<close> stops with no row printed and an empty \<^verbatim>\<open>fit_table\<close>.
\<close>

theorem abort_depends_on_order_counterexample:
  "mset [data_registry ! 0, data_registry ! 2] = mset [data_registry ! 2, data_registry ! 0]
   \<and> map row_system (fit_table (final_state
         (main failing_libs [data_registry ! 0, data_registry ! 2]))) = [''LiCl (Li+)'']
   \<and> length (console (final_state
         (main failing_libs [data_registry ! 0, data_registry ! 2]))) = 4
   \<and> fit_table (final_state (main failing_libs [data_registry ! 2, data_registry ! 0])) = []
   \<and> length (console (final_state
         (main failing_libs [data_registry ! 2, data_registry ! 0]))) = 3"
proof -
  have pre: "\<forall>sd' \<in> set [data_registry ! 0]. fit_ok failing_libs sd'"
    using failing_libs_cases(1) by simp
  have none: "\<forall>sd' \<in> set ([] :: registry). fit_ok failing_libs sd'"
    by simp
  note a = main_abort [OF pre failing_libs_cases(2), of "[]"]
  note b = main_abort [OF none failing_libs_cases(2), of "[data_registry ! 0]"]
  have "map row_system (map (the_row failing_libs) (fitted [data_registry ! 0]))
      = [''LiCl (Li+)'']"
    unfolding table_systems [OF pre] by (simp add: fitted_def data_registry_def)
  with a b show ?thesis
    by (simp add: start_state_def initial_state_def fitted_def add.commute)
qed

text \<open>
  C9, amended. In a run that completes, on a registry whose names are distinct as the keys of
  a dict are, the console holds one line for each dataset in the order of the registry, each
  beginning with the name of its dataset, \<^verbatim>\<open>fit_table\<close> and the rows of the parameters CSV
  name the fitted datasets in the order of the registry, and the rows of the raw CSV name the
  datasets in that order, each as many times as it has points. The run on any rearrangement
  of the registry completes too, writes the same two files, and its \<^verbatim>\<open>fit_table\<close>,
  \<^verbatim>\<open>raw_data_table\<close>, console lines, artists of the figure and rows of the two CSV files are
  those of the first run in another order.
\<close>

theorem outputs_follow_registry_order:
  assumes "main L reg = Inr st" and "distinct (map fst reg)"
  shows "console st = console start_state @ map (table_line L) reg
           @ [replicate 110 (CHR ''='')] @ closing_lines
     \<and> (\<forall>sd \<in> set reg. prefix (ljust 18 (fst sd) @ sep) (table_line L sd))
     \<and> map row_system (fit_table st) = map fst (fitted reg)
     \<and> (\<exists>raw par. files st raw_file = Some (Text raw) \<and> files st params_file = Some (Text par)
           \<and> map hd (tl (csv_rows raw))
               = concat (map (\<lambda>(system, d). replicate (length (ds_x d)) system) reg)
           \<and> map hd (tl (csv_rows par)) = map fst (fitted reg)
           \<and> (\<forall>reg'. mset reg' = mset reg \<longrightarrow>
                 (\<exists>st' raw' par'. main L reg' = Inr st'
                    \<and> files st' raw_file = Some (Text raw')
                    \<and> files st' params_file = Some (Text par')
                    \<and> mset (fit_table st') = mset (fit_table st)
                    \<and> mset (raw_data_table st') = mset (raw_data_table st)
                    \<and> mset (console st') = mset (console st)
                    \<and> mset (figure st') = mset (figure st)
                    \<and> mset (csv_rows raw') = mset (csv_rows raw)
                    \<and> mset (csv_rows par') = mset (csv_rows par))))"
proof -
  note s = main_Inr_state [OF assms(1)]
  note rows = csv_rows_of_run [OF assms(1)]
  have lines: "\<forall>sd \<in> set reg. prefix (ljust 18 (fst sd) @ sep) (table_line L sd)"
    using s(1) table_line_prefix by blast
  have tab: "map row_system (fit_table st) = map fst (fitted reg)"
    unfolding s(3) by (rule table_systems [OF s(1)])
  have "\<forall>sd \<in> set reg. length (ds_x (snd sd)) = length (ds_sigma (snd sd))"
    using s(2) by (simp add: keys_ok_def)
  from systems_of_points [OF this]
  have raw: "map hd (tl (csv_rows (raw_csv reg)))
      = concat (map (\<lambda>(system, d). replicate (length (ds_x d)) system) reg)"
    unfolding rows(1) by (simp add: comp_def hd_raw_fields)
  have par: "map hd (tl (csv_rows (params_csv (fit_table st)))) = map fst (fitted reg)"
    unfolding rows(2) using tab by (simp add: comp_def hd_params_fields)
  have perm: "\<exists>st' raw' par'. main L reg' = Inr st'
                    \<and> files st' raw_file = Some (Text raw')
                    \<and> files st' params_file = Some (Text par')
                    \<and> mset (fit_table st') = mset (fit_table st)
                    \<and> mset (raw_data_table st') = mset (raw_data_table st)
                    \<and> mset (console st') = mset (console st)
                    \<and> mset (figure st') = mset (figure st)
                    \<and> mset (csv_rows raw') = mset (csv_rows (raw_csv reg))
                    \<and> mset (csv_rows par') = mset (csv_rows (params_csv (fit_table st)))"
    if p: "mset reg' = mset reg" for reg'
  proof -
    from perm_main_completes [OF p assms(1)] obtain st' where st': "main L reg' = Inr st'"
      by blast
    note s' = main_Inr_state [OF st']
    from st' s'(8) s'(9) perm_run [OF p assms(2,1) st'] perm_csv [OF p assms(1) st']
    show ?thesis
      by (intro exI [of _ st'] exI [of _ "raw_csv reg'"]
          exI [of _ "params_csv (fit_table st')"] conjI)
  qed
  from s(5) lines tab s(8) s(9) raw par perm show ?thesis
    by (intro conjI exI [of _ "raw_csv reg"] exI [of _ "params_csv (fit_table st)"] allI impI)
qed

theorem outputs_follow_registry_order_witness:
  "main (const_libs p0) data_registry = Inr (final_state (main (const_libs p0) data_registry))
   \<and> distinct (map fst data_registry)
   \<and> map row_system (fit_table (final_state (main (const_libs p0) data_registry)))
       = [''LiCl (Li+)'', ''NH4I (NH4+)'', ''Mg(NO3)2 (Mg2+)'', ''ZnCl2 (Zn2+)'']
   \<and> mset (rev data_registry) = mset data_registry
   \<and> (\<exists>st'. main (const_libs p0) (rev data_registry) = Inr st'
         \<and> mset (fit_table st') = mset (fit_table (final_state (main (const_libs p0) data_registry)))
         \<and> mset (console st') = mset (console (final_state (main (const_libs p0) data_registry)))
         \<and> mset (figure st') = mset (figure (final_state (main (const_libs p0) data_registry))))"
proof -
  note run = main_const_libs_data_registry [of p0]
  note t = outputs_follow_registry_order [OF run distinct_data_registry]
  from t have sys: "map row_system (fit_table (final_state (main (const_libs p0) data_registry)))
      = map fst (fitted data_registry)"
    by blast
  have names: "map fst (fitted data_registry)
      = [''LiCl (Li+)'', ''NH4I (NH4+)'', ''Mg(NO3)2 (Mg2+)'', ''ZnCl2 (Zn2+)'']"
    by (simp add: fitted_def data_registry_def)
  have perm: "mset (rev data_registry) = mset data_registry"
    by simp
  from t obtain raw par where
    "\<forall>reg'. mset reg' = mset data_registry \<longrightarrow>
       (\<exists>st' raw' par'. main (const_libs p0) reg' = Inr st'
          \<and> files st' raw_file = Some (Text raw') \<and> files st' params_file = Some (Text par')
          \<and> mset (fit_table st') = mset (fit_table (final_state (main (const_libs p0) data_registry)))
          \<and> mset (raw_data_table st') = mset (raw_data_table (final_state (main (const_libs p0) data_registry)))
          \<and> mset (console st') = mset (console (final_state (main (const_libs p0) data_registry)))
          \<and> mset (figure st') = mset (figure (final_state (main (const_libs p0) data_registry)))
          \<and> mset (csv_rows raw') = mset (csv_rows raw) \<and> mset (csv_rows par') = mset (csv_rows par))"
    by blast
  with perm have ex: "\<exists>st'. main (const_libs p0) (rev data_registry) = Inr st'
         \<and> mset (fit_table st') = mset (fit_table (final_state (main (const_libs p0) data_registry)))
         \<and> mset (console st') = mset (console (final_state (main (const_libs p0) data_registry)))
         \<and> mset (figure st') = mset (figure (final_state (main (const_libs p0) data_registry)))"
    by blast
  show ?thesis
    using run distinct_data_registry sys names perm ex by (simp only: simp_thms)
qed

end
